theory Spec2Isabelle
  imports Complex_Main "HOL-Library.Word"
begin

section \<open>Binary floating point, executable\<close>

text \<open>
  The filter computes with the C++ type \<open>float\<close>. The model takes it to be IEEE 754
  binary32, every operation rounded on its own to nearest, ties to even (no fused
  multiply-add, no excess precision). A value is its bit pattern; the arithmetic is
  written once for a format given by its fraction and exponent widths, on bit patterns
  read as natural numbers, so that binary64 (the type of the macro \<open>M_PI\<close>) is the same
  code at other widths.
\<close>

datatype format = Format (frac_bits: nat) (exp_bits: nat)

definition binary32 :: format where
  "binary32 = Format 23 8"

definition binary64 :: format where
  "binary64 = Format 52 11"

text \<open>The sign bit, and the exponent and fraction fields read as one number.\<close>

definition sign_of :: "format \<Rightarrow> nat \<Rightarrow> bool" where
  "sign_of F x = (2 ^ (frac_bits F + exp_bits F) \<le> x)"

definition mag_of :: "format \<Rightarrow> nat \<Rightarrow> nat" where
  "mag_of F x = x mod 2 ^ (frac_bits F + exp_bits F)"

definition pack :: "format \<Rightarrow> bool \<Rightarrow> nat \<Rightarrow> nat" where
  "pack F s m = (if s then 2 ^ (frac_bits F + exp_bits F) + m else m)"

definition inf_mag :: "format \<Rightarrow> nat" where
  "inf_mag F = (2 ^ exp_bits F - 1) * 2 ^ frac_bits F"

definition nan_code :: "format \<Rightarrow> nat" where
  "nan_code F = inf_mag F + 2 ^ (frac_bits F - 1)"

definition is_nan :: "format \<Rightarrow> nat \<Rightarrow> bool" where
  "is_nan F x = (inf_mag F < mag_of F x)"

definition is_inf :: "format \<Rightarrow> nat \<Rightarrow> bool" where
  "is_inf F x = (mag_of F x = inf_mag F)"

definition is_fin :: "format \<Rightarrow> nat \<Rightarrow> bool" where
  "is_fin F x = (mag_of F x < inf_mag F)"

text \<open>
  Every finite value is a whole multiple of the smallest subnormal, \<open>2 ^ - quantum_exp\<close>
  (\<open>2 ^ -149\<close> in binary32, \<open>2 ^ -1074\<close> in binary64). \<open>sig_of\<close> is that multiple, for
  a magnitude.
\<close>

definition quantum_exp :: "format \<Rightarrow> nat" where
  "quantum_exp F = 2 ^ (exp_bits F - 1) - 2 + frac_bits F"

definition sig_of :: "format \<Rightarrow> nat \<Rightarrow> nat" where
  "sig_of F m =
     (if m div 2 ^ frac_bits F = 0 then m mod 2 ^ frac_bits F
      else (2 ^ frac_bits F + m mod 2 ^ frac_bits F) * 2 ^ (m div 2 ^ frac_bits F - 1))"

definition signed_sig :: "format \<Rightarrow> nat \<Rightarrow> int" where
  "signed_sig F x =
     (if sign_of F x then - int (sig_of F (mag_of F x)) else int (sig_of F (mag_of F x)))"

fun bit_length :: "nat \<Rightarrow> nat" where
  "bit_length n = (if n = 0 then 0 else Suc (bit_length (n div 2)))"

declare bit_length.simps [simp del]

text \<open>\<open>n / d\<close> to the nearest whole number, a tie to the even one.\<close>

definition round_half_even :: "nat \<Rightarrow> nat \<Rightarrow> nat" where
  "round_half_even n d =
     (if 2 * (n mod d) < d then n div d
      else if d < 2 * (n mod d) then n div d + 1
      else if even (n div d) then n div d else n div d + 1)"

text \<open>
  The magnitude nearest to \<open>n / d\<close> quanta (\<open>0 < d\<close>). Below \<open>2 ^ (frac_bits + 1)\<close>
  quanta the spacing is one quantum; above, it doubles with each further bit: \<open>sh\<close>
  counts the doublings. The exponent field is \<open>sh + 1\<close> and the fields are adjacent,
  so a significand that rounds up to the next power of two carries into the exponent,
  and a result past the largest finite value is the infinity.
\<close>

definition round_at :: "format \<Rightarrow> nat \<Rightarrow> nat \<Rightarrow> nat \<Rightarrow> nat" where
  "round_at F n d sh = sh * 2 ^ frac_bits F + round_half_even n (d * 2 ^ sh)"

definition round_mag :: "format \<Rightarrow> nat \<Rightarrow> nat \<Rightarrow> nat" where
  "round_mag F n d =
     min (round_at F n d (bit_length (n div d) - (frac_bits F + 1))) (inf_mag F)"

text \<open>
  A signed whole number of quanta as a value; \<open>z\<close> is the sign of the result when the
  number is zero.
\<close>

definition of_quanta :: "format \<Rightarrow> bool \<Rightarrow> int \<Rightarrow> nat" where
  "of_quanta F z s =
     (if s = 0 then pack F z 0 else pack F (s < 0) (round_mag F (nat \<bar>s\<bar>) 1))"

definition gneg :: "format \<Rightarrow> nat \<Rightarrow> nat" where
  "gneg F x = pack F (\<not> sign_of F x) (mag_of F x)"

definition gabs :: "format \<Rightarrow> nat \<Rightarrow> nat" where
  "gabs F x = mag_of F x"

definition gadd :: "format \<Rightarrow> nat \<Rightarrow> nat \<Rightarrow> nat" where
  "gadd F x y =
     (if is_nan F x \<or> is_nan F y then nan_code F
      else if is_inf F x then
        (if is_inf F y \<and> sign_of F x \<noteq> sign_of F y then nan_code F else x)
      else if is_inf F y then y
      else of_quanta F (sign_of F x \<and> sign_of F y) (signed_sig F x + signed_sig F y))"

definition gsub :: "format \<Rightarrow> nat \<Rightarrow> nat \<Rightarrow> nat" where
  "gsub F x y = gadd F x (gneg F y)"

definition gmul :: "format \<Rightarrow> nat \<Rightarrow> nat \<Rightarrow> nat" where
  "gmul F x y =
     (if is_nan F x \<or> is_nan F y then nan_code F
      else if is_inf F x \<or> is_inf F y then
        (if mag_of F x = 0 \<or> mag_of F y = 0 then nan_code F
         else pack F (sign_of F x \<noteq> sign_of F y) (inf_mag F))
      else pack F (sign_of F x \<noteq> sign_of F y)
             (round_mag F (sig_of F (mag_of F x) * sig_of F (mag_of F y))
                (2 ^ quantum_exp F)))"

definition gdiv :: "format \<Rightarrow> nat \<Rightarrow> nat \<Rightarrow> nat" where
  "gdiv F x y =
     (if is_nan F x \<or> is_nan F y then nan_code F
      else if is_inf F x then
        (if is_inf F y then nan_code F
         else pack F (sign_of F x \<noteq> sign_of F y) (inf_mag F))
      else if is_inf F y then pack F (sign_of F x \<noteq> sign_of F y) 0
      else if mag_of F y = 0 then
        (if mag_of F x = 0 then nan_code F
         else pack F (sign_of F x \<noteq> sign_of F y) (inf_mag F))
      else pack F (sign_of F x \<noteq> sign_of F y)
             (round_mag F (sig_of F (mag_of F x) * 2 ^ quantum_exp F)
                (sig_of F (mag_of F y))))"

text \<open>
  The comparisons \<open><\<close> and \<open>==\<close>: false when an operand is a NaN, and the two zeros
  are equal.
\<close>

definition gless :: "format \<Rightarrow> nat \<Rightarrow> nat \<Rightarrow> bool" where
  "gless F x y = (\<not> is_nan F x \<and> \<not> is_nan F y \<and> signed_sig F x < signed_sig F y)"

definition gequal :: "format \<Rightarrow> nat \<Rightarrow> nat \<Rightarrow> bool" where
  "gequal F x y = (\<not> is_nan F x \<and> \<not> is_nan F y \<and> signed_sig F x = signed_sig F y)"

text \<open>A decimal literal \<open>n / d\<close> (\<open>0 < d\<close>), converted to the nearest value.\<close>

definition literal :: "format \<Rightarrow> nat \<Rightarrow> nat \<Rightarrow> nat" where
  "literal F n d = round_mag F (n * 2 ^ quantum_exp F) d"

text \<open>Conversion between formats: exact when widening, rounded when narrowing.\<close>

definition convert :: "format \<Rightarrow> format \<Rightarrow> nat \<Rightarrow> nat" where
  "convert F G x =
     (if is_nan F x then nan_code G
      else if is_inf F x then pack G (sign_of F x) (inf_mag G)
      else pack G (sign_of F x)
             (round_mag G (sig_of F (mag_of F x) * 2 ^ quantum_exp G) (2 ^ quantum_exp F)))"

subsection \<open>The same arithmetic on short numbers\<close>

text \<open>
  The definitions above compute with whole numbers of quanta, which run to hundreds of
  digits. The functions below compute the same results from the fields: a value is
  \<open>mant_of * 2 ^ expo_of\<close> quanta, and a quotient is rounded after taking out of the
  numerator the power of two that only moves the exponent. They are proved equal to
  the definitions further down, and are what concrete inputs are evaluated with.
\<close>

definition mant_of :: "format \<Rightarrow> nat \<Rightarrow> nat" where
  "mant_of F m =
     (if m div 2 ^ frac_bits F = 0 then m mod 2 ^ frac_bits F
      else 2 ^ frac_bits F + m mod 2 ^ frac_bits F)"

definition expo_of :: "format \<Rightarrow> nat \<Rightarrow> nat" where
  "expo_of F m = m div 2 ^ frac_bits F - 1"

text \<open>\<open>mant_of\<close> from the magnitude \<open>m\<close> and its exponent field \<open>e\<close>.\<close>

definition mant_e :: "format \<Rightarrow> nat \<Rightarrow> nat \<Rightarrow> nat" where
  "mant_e F m e = (if e = 0 then m else m - (e - 1) * 2 ^ frac_bits F)"

text \<open>\<open>round_half_even\<close> from the quotient \<open>q\<close>, and from quotient and remainder.\<close>

definition rhe_r :: "nat \<Rightarrow> nat \<Rightarrow> nat \<Rightarrow> nat" where
  "rhe_r q r d =
     (if 2 * r < d then q else if d < 2 * r then q + 1 else if even q then q else q + 1)"

definition rhe_q :: "nat \<Rightarrow> nat \<Rightarrow> nat \<Rightarrow> nat" where
  "rhe_q m d q = rhe_r q (m - q * d) d"

text \<open>
  \<open>round_shift F n d K\<close> is the magnitude nearest to \<open>n * 2 ^ K / d\<close> quanta: \<open>j\<close> of
  the \<open>K\<close> doublings go into the numerator, enough for a full significand, and the
  other \<open>K - j\<close> are added to the exponent field.
\<close>

definition shift_sh :: "format \<Rightarrow> nat \<Rightarrow> nat \<Rightarrow> nat \<Rightarrow> nat \<Rightarrow> nat \<Rightarrow> nat" where
  "shift_sh F m d k q sh =
     min ((k + sh) * 2 ^ frac_bits F + rhe_q m (push_bit sh d) (drop_bit sh q)) (inf_mag F)"

definition shift_q :: "format \<Rightarrow> nat \<Rightarrow> nat \<Rightarrow> nat \<Rightarrow> nat \<Rightarrow> nat" where
  "shift_q F m d k q = shift_sh F m d k q (bit_length q - (frac_bits F + 1))"

definition shift_by :: "format \<Rightarrow> nat \<Rightarrow> nat \<Rightarrow> nat \<Rightarrow> nat \<Rightarrow> nat" where
  "shift_by F n d K j = shift_q F (push_bit j n) d (K - j) (push_bit j n div d)"

definition round_shift :: "format \<Rightarrow> nat \<Rightarrow> nat \<Rightarrow> nat \<Rightarrow> nat" where
  "round_shift F n d K =
     (if n = 0 then 0
      else shift_by F n d K (min K (frac_bits F + 1 + bit_length d - bit_length n)))"

text \<open>The magnitude nearest to \<open>(n * 2 ^ a) / (d * 2 ^ b)\<close> quanta.\<close>

definition round_ratio :: "format \<Rightarrow> nat \<Rightarrow> nat \<Rightarrow> nat \<Rightarrow> nat \<Rightarrow> nat" where
  "round_ratio F n a d b =
     (if b \<le> a then round_shift F n d (a - b) else round_shift F n (push_bit (b - a) d) 0)"

text \<open>Addition of \<open>\<plusminus> A * 2 ^ k\<close> and \<open>\<plusminus> B * 2 ^ k\<close> quanta (\<open>True\<close> is the minus sign).\<close>

definition add_aligned :: "format \<Rightarrow> bool \<Rightarrow> nat \<Rightarrow> bool \<Rightarrow> nat \<Rightarrow> nat \<Rightarrow> nat" where
  "add_aligned F sx A sy B k =
     (if sx = sy then pack F sx (round_shift F (A + B) 1 k)
      else if B < A then pack F sx (round_shift F (A - B) 1 k)
      else if A < B then pack F sy (round_shift F (B - A) 1 k)
      else 0)"

definition add_k ::
  "format \<Rightarrow> bool \<Rightarrow> nat \<Rightarrow> nat \<Rightarrow> bool \<Rightarrow> nat \<Rightarrow> nat \<Rightarrow> nat \<Rightarrow> nat" where
  "add_k F sx Mx ax sy My ay k =
     add_aligned F sx (push_bit (ax - k) Mx) sy (push_bit (ay - k) My) k"

definition add_exp :: "format \<Rightarrow> bool \<Rightarrow> nat \<Rightarrow> nat \<Rightarrow> bool \<Rightarrow> nat \<Rightarrow> nat \<Rightarrow> nat" where
  "add_exp F sx mx ex sy my ey =
     add_k F sx (mant_e F mx ex) (ex - 1) sy (mant_e F my ey) (ey - 1) (min (ex - 1) (ey - 1))"

definition add_dec :: "format \<Rightarrow> bool \<Rightarrow> nat \<Rightarrow> bool \<Rightarrow> nat \<Rightarrow> nat" where
  "add_dec F sx mx sy my =
     (if inf_mag F < mx \<or> inf_mag F < my then nan_code F
      else if mx = inf_mag F then
        (if my = inf_mag F \<and> sx \<noteq> sy then nan_code F else pack F sx mx)
      else if my = inf_mag F then pack F sy my
      else add_exp F sx mx (drop_bit (frac_bits F) mx) sy my (drop_bit (frac_bits F) my))"

definition mul_exp :: "format \<Rightarrow> nat \<Rightarrow> nat \<Rightarrow> nat \<Rightarrow> nat \<Rightarrow> nat" where
  "mul_exp F mx ex my ey =
     round_ratio F (mant_e F mx ex * mant_e F my ey) ((ex - 1) + (ey - 1)) 1 (quantum_exp F)"

definition mul_dec :: "format \<Rightarrow> bool \<Rightarrow> nat \<Rightarrow> bool \<Rightarrow> nat \<Rightarrow> nat" where
  "mul_dec F sx mx sy my =
     (if inf_mag F < mx \<or> inf_mag F < my then nan_code F
      else if mx = inf_mag F \<or> my = inf_mag F then
        (if mx = 0 \<or> my = 0 then nan_code F else pack F (sx \<noteq> sy) (inf_mag F))
      else pack F (sx \<noteq> sy)
             (mul_exp F mx (drop_bit (frac_bits F) mx) my (drop_bit (frac_bits F) my)))"

definition div_exp :: "format \<Rightarrow> nat \<Rightarrow> nat \<Rightarrow> nat \<Rightarrow> nat \<Rightarrow> nat" where
  "div_exp F mx ex my ey =
     round_ratio F (mant_e F mx ex) ((ex - 1) + quantum_exp F) (mant_e F my ey) (ey - 1)"

definition div_dec :: "format \<Rightarrow> bool \<Rightarrow> nat \<Rightarrow> bool \<Rightarrow> nat \<Rightarrow> nat" where
  "div_dec F sx mx sy my =
     (if inf_mag F < mx \<or> inf_mag F < my then nan_code F
      else if mx = inf_mag F then
        (if my = inf_mag F then nan_code F else pack F (sx \<noteq> sy) (inf_mag F))
      else if my = inf_mag F then pack F (sx \<noteq> sy) 0
      else if my = 0 then
        (if mx = 0 then nan_code F else pack F (sx \<noteq> sy) (inf_mag F))
      else pack F (sx \<noteq> sy)
             (div_exp F mx (drop_bit (frac_bits F) mx) my (drop_bit (frac_bits F) my)))"

definition conv_dec :: "format \<Rightarrow> format \<Rightarrow> bool \<Rightarrow> nat \<Rightarrow> nat" where
  "conv_dec F G s m =
     (if inf_mag F < m then nan_code G
      else if m = inf_mag F then pack G s (inf_mag G)
      else pack G s
             (round_ratio G (mant_e F m (drop_bit (frac_bits F) m))
                ((drop_bit (frac_bits F) m - 1) + quantum_exp G) 1 (quantum_exp F)))"

text \<open>\<open>bit_length n + a\<close>, for counting the bits of a numeral from the low end.\<close>

definition bl_acc :: "nat \<Rightarrow> nat \<Rightarrow> nat" where
  "bl_acc n a = bit_length n + a"

subsection \<open>The types \<open>float\<close> and \<open>double\<close>\<close>

type_synonym float = "32 word"

type_synonym double = "64 word"

definition fadd :: "float \<Rightarrow> float \<Rightarrow> float" where
  "fadd x y = of_nat (gadd binary32 (unat x) (unat y))"

definition fsub :: "float \<Rightarrow> float \<Rightarrow> float" where
  "fsub x y = of_nat (gsub binary32 (unat x) (unat y))"

definition fmul :: "float \<Rightarrow> float \<Rightarrow> float" where
  "fmul x y = of_nat (gmul binary32 (unat x) (unat y))"

definition fdiv :: "float \<Rightarrow> float \<Rightarrow> float" where
  "fdiv x y = of_nat (gdiv binary32 (unat x) (unat y))"

definition fneg :: "float \<Rightarrow> float" where
  "fneg x = of_nat (gneg binary32 (unat x))"

definition fabs :: "float \<Rightarrow> float" where
  "fabs x = of_nat (gabs binary32 (unat x))"

definition fless :: "float \<Rightarrow> float \<Rightarrow> bool" where
  "fless x y = gless binary32 (unat x) (unat y)"

definition fequal :: "float \<Rightarrow> float \<Rightarrow> bool" where
  "fequal x y = gequal binary32 (unat x) (unat y)"

definition isfinite :: "float \<Rightarrow> bool" where
  "isfinite x = is_fin binary32 (unat x)"

definition isnan :: "float \<Rightarrow> bool" where
  "isnan x = is_nan binary32 (unat x)"

text \<open>The real number that a finite value stands for.\<close>

definition float_value :: "float \<Rightarrow> real" where
  "float_value x = real_of_int (signed_sig binary32 (unat x)) / 2 ^ quantum_exp binary32"

text \<open>
  The sign bit (\<open>std::signbit\<close>), the magnitude in quanta of \<open>2 ^ -149\<close>, and the value
  in quanta.
\<close>

definition signbit :: "float \<Rightarrow> bool" where
  "signbit x = sign_of binary32 (unat x)"

definition magnitude :: "float \<Rightarrow> nat" where
  "magnitude x = sig_of binary32 (mag_of binary32 (unat x))"

definition quanta :: "float \<Rightarrow> int" where
  "quanta x = signed_sig binary32 (unat x)"

definition flit :: "nat \<Rightarrow> nat \<Rightarrow> float" where
  "flit n d = of_nat (literal binary32 n d)"

definition dadd :: "double \<Rightarrow> double \<Rightarrow> double" where
  "dadd x y = of_nat (gadd binary64 (unat x) (unat y))"

definition dsub :: "double \<Rightarrow> double \<Rightarrow> double" where
  "dsub x y = of_nat (gsub binary64 (unat x) (unat y))"

definition dmul :: "double \<Rightarrow> double \<Rightarrow> double" where
  "dmul x y = of_nat (gmul binary64 (unat x) (unat y))"

definition ddiv :: "double \<Rightarrow> double \<Rightarrow> double" where
  "ddiv x y = of_nat (gdiv binary64 (unat x) (unat y))"

definition dneg :: "double \<Rightarrow> double" where
  "dneg x = of_nat (gneg binary64 (unat x))"

definition dlit :: "nat \<Rightarrow> nat \<Rightarrow> double" where
  "dlit n d = of_nat (literal binary64 n d)"

definition to_double :: "float \<Rightarrow> double" where
  "to_double x = of_nat (convert binary32 binary64 (unat x))"

text \<open>The real number that a finite \<open>double\<close> stands for.\<close>

definition double_value :: "double \<Rightarrow> real" where
  "double_value x = real_of_int (signed_sig binary64 (unat x)) / 2 ^ quantum_exp binary64"

text \<open>
  \<open>M_PI\<close> is the \<open>double\<close> literal \<open>3.14159265358979323846\<close>; the source casts it to
  \<open>float\<close>.
\<close>

definition M_PI :: double where
  "M_PI = dlit 314159265358979323846 100000000000000000000"

definition static_cast_float :: "double \<Rightarrow> float" where
  "static_cast_float x = of_nat (convert binary64 binary32 (unat x))"

section \<open>The filter\<close>

record BiquadFilter =
  b0 :: float
  b1 :: float
  b2 :: float
  a1 :: float
  a2 :: float
  z1 :: float
  z2 :: float

text \<open>The member initialisers of the struct.\<close>

definition BiquadFilter_default :: BiquadFilter where
  "BiquadFilter_default =
     \<lparr>b0 = flit 1 1, b1 = flit 0 1, b2 = flit 0 1, a1 = flit 0 1, a2 = flit 0 1,
      z1 = flit 0 1, z2 = flit 0 1\<rparr>"

text \<open>\<open>Update\<close> returns its result and the filter as it leaves it.\<close>

definition Update :: "BiquadFilter \<Rightarrow> float \<Rightarrow> float \<times> BiquadFilter" where
  "Update f sample =
     (let result = fadd (fmul sample (b0 f)) (z1 f)
      in (result,
          f\<lparr>z1 := fsub (fadd (fmul sample (b1 f)) (z2 f)) (fmul (a1 f) result),
            z2 := fsub (fmul sample (b2 f)) (fmul (a2 f) result)\<rparr>))"

definition Reset :: "BiquadFilter \<Rightarrow> BiquadFilter" where
  "Reset f = f\<lparr>z1 := flit 0 1, z2 := flit 0 1\<rparr>"

text \<open>
  \<open>sinf\<close> and \<open>cosf\<close> are functions of the C library, outside the repository, and
  their results are not fixed by a standard: they are parameters.
\<close>

definition MakeLowPass ::
  "(float \<Rightarrow> float) \<Rightarrow> (float \<Rightarrow> float) \<Rightarrow> float \<Rightarrow> float \<Rightarrow> float \<Rightarrow> BiquadFilter"
where
  "MakeLowPass sinf cosf cutoffHz sampleRateHz q =
     (let omega = fmul (fmul (flit 2 1) (static_cast_float M_PI)) (fdiv cutoffHz sampleRateHz);
          sinOmega = sinf omega;
          cosOmega = cosf omega;
          alpha = fdiv sinOmega (fmul (flit 2 1) q);
          b0_raw = fmul (fsub (flit 1 1) cosOmega) (flit 1 2);
          b1_raw = fsub (flit 1 1) cosOmega;
          b2_raw = fmul (fsub (flit 1 1) cosOmega) (flit 1 2);
          a0_raw = fadd (flit 1 1) alpha;
          a1_raw = fmul (fneg (flit 2 1)) cosOmega;
          a2_raw = fsub (flit 1 1) alpha
      in BiquadFilter_default
           \<lparr>b0 := fdiv b0_raw a0_raw, b1 := fdiv b1_raw a0_raw, b2 := fdiv b2_raw a0_raw,
            a1 := fdiv a1_raw a0_raw, a2 := fdiv a2_raw a0_raw\<rparr>)"

text \<open>The first line of \<open>MakeLowPass\<close>: the argument of \<open>sinf\<close> and \<open>cosf\<close>.\<close>

definition omega_of :: "float \<Rightarrow> float \<Rightarrow> float" where
  "omega_of cutoffHz sampleRateHz =
     fmul (fmul (flit 2 1) (static_cast_float M_PI)) (fdiv cutoffHz sampleRateHz)"

text \<open>
  \<open>MakeLowPass\<close> from the line after \<open>cosf\<close> on: what it computes from the values that
  \<open>sinf\<close> and \<open>cosf\<close> returned.
\<close>

definition LowPass_from :: "float \<Rightarrow> float \<Rightarrow> float \<Rightarrow> BiquadFilter" where
  "LowPass_from sinOmega cosOmega q =
     (let alpha = fdiv sinOmega (fmul (flit 2 1) q);
          b0_raw = fmul (fsub (flit 1 1) cosOmega) (flit 1 2);
          b1_raw = fsub (flit 1 1) cosOmega;
          b2_raw = fmul (fsub (flit 1 1) cosOmega) (flit 1 2);
          a0_raw = fadd (flit 1 1) alpha;
          a1_raw = fmul (fneg (flit 2 1)) cosOmega;
          a2_raw = fsub (flit 1 1) alpha
      in BiquadFilter_default
           \<lparr>b0 := fdiv b0_raw a0_raw, b1 := fdiv b1_raw a0_raw, b2 := fdiv b2_raw a0_raw,
            a1 := fdiv a1_raw a0_raw, a2 := fdiv a2_raw a0_raw\<rparr>)"

text \<open>
  The loops of the tests: \<open>for (int i = 0; i < n; ++i) output = filter.Update(x);\<close>
  on the pair of \<open>output\<close> and \<open>filter\<close>.
\<close>

primrec feed :: "nat \<Rightarrow> float \<Rightarrow> float \<times> BiquadFilter \<Rightarrow> float \<times> BiquadFilter" where
  "feed 0 x s = s"
| "feed (Suc n) x s = feed n x (Update (snd s) x)"

text \<open>\<open>Update\<close> once its result is known.\<close>

definition Update_with :: "BiquadFilter \<Rightarrow> float \<Rightarrow> float \<Rightarrow> float \<times> BiquadFilter" where
  "Update_with f sample result =
     (result,
      f\<lparr>z1 := fsub (fadd (fmul sample (b1 f)) (z2 f)) (fmul (a1 f) result),
        z2 := fsub (fmul sample (b2 f)) (fmul (a2 f) result)\<rparr>)"

text \<open>
  The filter of the three tests, \<open>MakeLowPass(12.0f, 200.0f, 0.707f)\<close>; the loop of
  \<open>TestStepResponse\<close>, 200 updates with \<open>1.0f\<close>; the loop of \<open>TestZeroInput\<close>, 50
  updates with \<open>0.0f\<close> of the filter as built; and the 50 updates with \<open>0.0f\<close> of the
  filter that the 200 updates have driven, which is what the specification describes.
\<close>

definition test_filter :: "(float \<Rightarrow> float) \<Rightarrow> (float \<Rightarrow> float) \<Rightarrow> BiquadFilter" where
  "test_filter sinf cosf = MakeLowPass sinf cosf (flit 12 1) (flit 200 1) (flit 707 1000)"

definition TestStepResponse_loop ::
  "(float \<Rightarrow> float) \<Rightarrow> (float \<Rightarrow> float) \<Rightarrow> float \<times> BiquadFilter" where
  "TestStepResponse_loop sinf cosf = feed 200 (flit 1 1) (flit 0 1, test_filter sinf cosf)"

definition TestZeroInput_loop ::
  "(float \<Rightarrow> float) \<Rightarrow> (float \<Rightarrow> float) \<Rightarrow> float \<times> BiquadFilter" where
  "TestZeroInput_loop sinf cosf = feed 50 (flit 0 1) (flit 0 1, test_filter sinf cosf)"

definition zero_input_after_step ::
  "(float \<Rightarrow> float) \<Rightarrow> (float \<Rightarrow> float) \<Rightarrow> float \<times> BiquadFilter" where
  "zero_input_after_step sinf cosf = feed 50 (flit 0 1) (TestStepResponse_loop sinf cosf)"

text \<open>
  The designer as the specification words it: the whole derivation in \<open>double\<close>, with
  the \<open>double\<close> functions \<open>sin\<close> and \<open>cos\<close> of the C library (the parameters \<open>dsin\<close>
  and \<open>dcos\<close>), and each of the five
  results converted to \<open>float\<close> when it is stored.
\<close>

definition MakeLowPass_double ::
  "(double \<Rightarrow> double) \<Rightarrow> (double \<Rightarrow> double) \<Rightarrow> float \<Rightarrow> float \<Rightarrow> float \<Rightarrow> BiquadFilter"
where
  "MakeLowPass_double dsin dcos cutoffHz sampleRateHz q =
     (let omega = dmul (dmul (dlit 2 1) M_PI) (ddiv (to_double cutoffHz) (to_double sampleRateHz));
          sinOmega = dsin omega;
          cosOmega = dcos omega;
          alpha = ddiv sinOmega (dmul (dlit 2 1) (to_double q));
          b0_raw = dmul (dsub (dlit 1 1) cosOmega) (dlit 1 2);
          b1_raw = dsub (dlit 1 1) cosOmega;
          b2_raw = dmul (dsub (dlit 1 1) cosOmega) (dlit 1 2);
          a0_raw = dadd (dlit 1 1) alpha;
          a1_raw = dmul (dneg (dlit 2 1)) cosOmega;
          a2_raw = dsub (dlit 1 1) alpha
      in BiquadFilter_default
           \<lparr>b0 := static_cast_float (ddiv b0_raw a0_raw),
            b1 := static_cast_float (ddiv b1_raw a0_raw),
            b2 := static_cast_float (ddiv b2_raw a0_raw),
            a1 := static_cast_float (ddiv a1_raw a0_raw),
            a2 := static_cast_float (ddiv a2_raw a0_raw)\<rparr>)"

subsection \<open>The C library at the argument of the tests\<close>

text \<open>
  \<open>sinf\<close> and \<open>cosf\<close> belong to the C library, not to the repository, and \<open>MakeLowPass\<close>
  takes them as parameters. The three tests call \<open>MakeLowPass(12.0f, 200.0f, 0.707f)\<close>,
  which calls \<open>sinf\<close> and \<open>cosf\<close> at one argument, \<open>omega = 0x3EC104FB\<close>, about
  \<open>0.37699112\<close>. For runs on concrete inputs the following functions return, whatever the
  argument, the single-precision values nearest to the sine and the cosine of that
  number, about \<open>0.36812454\<close> and \<open>0.92977649\<close>; \<open>sin_nearest\<close> and \<open>cos_nearest\<close> return
  the double-precision values nearest to the sine and the cosine of \<open>omega\<close> computed in
  \<open>double\<close>, \<open>0x3FD8209F5B22BAA6\<close>. They are used at these arguments only.
\<close>

definition sinf_nearest :: "float \<Rightarrow> float" where
  "sinf_nearest x = 0x3EBC7AD2"

definition cosf_nearest :: "float \<Rightarrow> float" where
  "cosf_nearest x = 0x3F6E05D5"

definition sin_nearest :: "double \<Rightarrow> double" where
  "sin_nearest x = 0x3FD78F5A48A8A918"

definition cos_nearest :: "double \<Rightarrow> double" where
  "cos_nearest x = 0x3FEDC0BA9DEF5AE5"


section \<open>Bit lengths and rounding\<close>

lemma bit_length_0 [simp]: "bit_length 0 = 0"
  by (simp add: bit_length.simps)

lemma bit_length_pos: "0 < n \<Longrightarrow> bit_length n = Suc (bit_length (n div 2))"
  by (subst bit_length.simps) simp

lemma flit_zero: "flit 0 1 = 0"
  by (simp add: flit_def literal_def round_mag_def round_at_def round_half_even_def)

subsection \<open>Bit lengths\<close>

lemma bit_length_le: "n < 2 ^ L \<Longrightarrow> bit_length n \<le> L"
proof (induction L arbitrary: n)
  case 0
  then show ?case by simp
next
  case (Suc L)
  show ?case
  proof (cases "n = 0")
    case True
    then show ?thesis by simp
  next
    case False
    from Suc.prems have "n div 2 < 2 ^ L" by simp
    then have "bit_length (n div 2) \<le> L" by (rule Suc.IH)
    with False show ?thesis by (simp add: bit_length_pos)
  qed
qed

lemma bit_length_ge: "2 ^ L \<le> n \<Longrightarrow> L < bit_length n"
proof (induction L arbitrary: n)
  case 0
  then show ?case by (simp add: bit_length_pos)
next
  case (Suc L)
  then have "0 < n" by (metis gr0I not_less_eq_eq power_eq_0_iff zero_neq_numeral le_zero_eq)
  from Suc.prems have "2 ^ L \<le> n div 2" by simp
  then have "L < bit_length (n div 2)" by (rule Suc.IH)
  with \<open>0 < n\<close> show ?case by (simp add: bit_length_pos)
qed

lemma bit_length_eqI: "2 ^ L \<le> n \<Longrightarrow> n < 2 ^ Suc L \<Longrightarrow> bit_length n = Suc L"
  using bit_length_le [of n "Suc L"] bit_length_ge [of L n] by simp

lemma bit_length_lower: "0 < n \<Longrightarrow> 2 ^ (bit_length n - 1) \<le> n"
proof (rule ccontr)
  assume "0 < n" and "\<not> 2 ^ (bit_length n - 1) \<le> n"
  then have "n < 2 ^ (bit_length n - 1)" by simp
  then have "bit_length n \<le> bit_length n - 1" by (rule bit_length_le)
  moreover from \<open>0 < n\<close> have "0 < bit_length n" by (simp add: bit_length_pos)
  ultimately show False by simp
qed

lemma bit_length_upper: "n < 2 ^ bit_length n"
proof (rule ccontr)
  assume "\<not> n < 2 ^ bit_length n"
  then have "2 ^ bit_length n \<le> n" by simp
  then have "bit_length n < bit_length n" by (rule bit_length_ge)
  then show False by simp
qed

lemma bit_length_mult_pow2: "0 < n \<Longrightarrow> bit_length (n * 2 ^ k) = bit_length n + k"
proof -
  assume pos: "0 < n"
  then obtain L where L: "bit_length n = Suc L" by (auto simp: bit_length_pos)
  have lo: "2 ^ L \<le> n" using bit_length_lower [OF pos] L by simp
  have hi: "n < 2 ^ Suc L" using bit_length_upper [of n] L by simp
  have "2 ^ (L + k) \<le> n * 2 ^ k" using lo by (simp add: power_add)
  moreover have "n * 2 ^ k < 2 ^ Suc (L + k)" using hi by (simp add: power_add)
  ultimately have "bit_length (n * 2 ^ k) = Suc (L + k)" by (rule bit_length_eqI)
  with L show ?thesis by simp
qed

subsection \<open>Rounding is invariant under scaling, and shifts with the exponent\<close>

lemma round_half_even_scale:
  "0 < c \<Longrightarrow> round_half_even (n * c) (d * c) = round_half_even n d"
  by (simp add: round_half_even_def mult.commute [of _ c] mult.left_commute [of _ c]
      mult_less_cancel1)

lemma round_half_even_exact: "0 < d \<Longrightarrow> round_half_even (m * d) d = m"
  by (simp add: round_half_even_def)

lemma sig_of_parts: "sig_of F m = mant_of F m * 2 ^ expo_of F m"
  by (simp add: sig_of_def mant_of_def expo_of_def)

lemma round_mag_scale:
  "0 < c \<Longrightarrow> round_mag F (n * c) (d * c) = round_mag F n d"
proof -
  assume c: "0 < c"
  have "round_half_even (n * c) (d * c * 2 ^ sh) = round_half_even n (d * 2 ^ sh)" for sh
    using round_half_even_scale [OF c, of n "d * 2 ^ sh"] by (simp add: mult.assoc mult.commute mult.left_commute)
  with c show ?thesis by (simp add: round_mag_def round_at_def)
qed

lemma bit_length_div_pow2:
  assumes d: "0 < d" and q: "0 < n div d"
  shows "bit_length ((n * 2 ^ k) div d) = bit_length (n div d) + k"
proof -
  obtain L where L: "bit_length (n div d) = Suc L" using q by (auto simp: bit_length_pos)
  have lo: "2 ^ L \<le> n div d" using bit_length_lower [OF q] L by simp
  have hi: "n div d < 2 ^ Suc L" using bit_length_upper [of "n div d"] L by simp
  from lo d have "2 ^ L * d \<le> n" by (simp add: less_eq_div_iff_mult_less_eq)
  then have "2 ^ L * d * 2 ^ k \<le> n * 2 ^ k" by simp
  then have "2 ^ (L + k) * d \<le> n * 2 ^ k" by (simp add: power_add mult.assoc mult.commute mult.left_commute)
  with d have lo': "2 ^ (L + k) \<le> (n * 2 ^ k) div d" by (simp add: less_eq_div_iff_mult_less_eq)
  from hi d have "n < 2 ^ Suc L * d" by (simp add: div_less_iff_less_mult)
  then have "n * 2 ^ k < 2 ^ Suc L * d * 2 ^ k" by simp
  then have "n * 2 ^ k < 2 ^ Suc (L + k) * d" by (simp add: power_add mult.assoc mult.commute mult.left_commute)
  with d have hi': "(n * 2 ^ k) div d < 2 ^ Suc (L + k)" by (simp add: div_less_iff_less_mult)
  from lo' hi' have "bit_length ((n * 2 ^ k) div d) = Suc (L + k)" by (rule bit_length_eqI)
  with L show ?thesis by simp
qed

lemma round_at_normal_shift:
  assumes d: "0 < d" and norm: "frac_bits F + 1 \<le> bit_length (n div d)"
  shows "round_at F (n * 2 ^ k) d (bit_length ((n * 2 ^ k) div d) - (frac_bits F + 1)) =
         k * 2 ^ frac_bits F + round_at F n d (bit_length (n div d) - (frac_bits F + 1))"
proof -
  from norm have q: "0 < n div d" by (cases "n div d = 0") auto
  have bl: "bit_length ((n * 2 ^ k) div d) = bit_length (n div d) + k"
    by (rule bit_length_div_pow2 [OF d q])
  define sh where "sh = bit_length (n div d) - (frac_bits F + 1)"
  have sh': "bit_length ((n * 2 ^ k) div d) - (frac_bits F + 1) = sh + k"
    using norm bl by (simp add: sh_def)
  have "round_half_even (n * 2 ^ k) (d * 2 ^ (sh + k)) = round_half_even n (d * 2 ^ sh)"
    using round_half_even_scale [of "2 ^ k" n "d * 2 ^ sh"] by (simp add: power_add mult.assoc)
  then show ?thesis
    unfolding sh' sh_def [symmetric] by (simp add: round_at_def add_mult_distrib)
qed

lemma round_mag_0: "round_mag F 0 d = 0"
  by (simp add: round_mag_def round_at_def round_half_even_def)

lemma rhe_q_eq: "rhe_q m d (m div d) = round_half_even m d"
proof -
  have "m - m div d * d = m mod d" by (simp add: minus_div_mult_eq_mod)
  then show ?thesis by (simp add: rhe_q_def rhe_r_def round_half_even_def)
qed

lemma shift_q_eq:
  assumes d: "0 < d"
  shows "shift_q F m d k (m div d) =
         min (k * 2 ^ frac_bits F + round_at F m d (bit_length (m div d) - (frac_bits F + 1)))
           (inf_mag F)"
proof -
  have "drop_bit sh (m div d) = m div (push_bit sh d)" for sh
    by (simp add: drop_bit_eq_div push_bit_eq_mult div_mult2_eq)
  then show ?thesis
    by (simp add: shift_q_def shift_sh_def rhe_q_eq round_at_def push_bit_eq_mult add_mult_distrib)
qed

lemma round_mag_shift:
  assumes d: "0 < d"
  shows "round_mag F (n * 2 ^ K) d = round_shift F n d K"
proof (cases "n = 0")
  case True
  then show ?thesis by (simp add: round_shift_def round_mag_0)
next
  case False
  then have n: "0 < n" by simp
  define j where "j = min K (frac_bits F + 1 + bit_length d - bit_length n)"
  have split: "n * 2 ^ K = (n * 2 ^ j) * 2 ^ (K - j)"
    by (simp add: j_def mult.assoc flip: power_add)
  have rs: "round_shift F n d K =
            min ((K - j) * 2 ^ frac_bits F
                 + round_at F (n * 2 ^ j) d (bit_length ((n * 2 ^ j) div d) - (frac_bits F + 1)))
              (inf_mag F)"
    using False shift_q_eq [OF d, of F "n * 2 ^ j" "K - j"]
    by (simp add: round_shift_def shift_by_def j_def push_bit_eq_mult)
  show ?thesis
  proof (cases "K - j = 0")
    case True
    then have "K = j" by (simp add: j_def)
    then show ?thesis unfolding rs by (simp add: round_mag_def)
  next
    case False
    then have j: "j = frac_bits F + 1 + bit_length d - bit_length n"
      by (simp add: j_def min_def split: if_splits)
    have "2 ^ (bit_length n - 1) \<le> n" by (rule bit_length_lower [OF n])
    then have a: "2 ^ (bit_length n - 1) * 2 ^ j \<le> n * 2 ^ j" by simp
    have "frac_bits F + bit_length d \<le> bit_length n - 1 + j"
      using j by simp
    then have "(2::nat) ^ (frac_bits F + bit_length d) \<le> 2 ^ (bit_length n - 1 + j)"
      by (rule power_increasing) simp
    then have b: "(2::nat) ^ frac_bits F * 2 ^ bit_length d \<le> 2 ^ (bit_length n - 1) * 2 ^ j"
      by (simp only: power_add)
    from b a have c: "2 ^ frac_bits F * 2 ^ bit_length d \<le> n * 2 ^ j"
      by (rule order_trans)
    have "d \<le> 2 ^ bit_length d" using bit_length_upper [of d] by simp
    then have "2 ^ frac_bits F * d \<le> 2 ^ frac_bits F * 2 ^ bit_length d"
      by (rule mult_le_mono2)
    from this c have "2 ^ frac_bits F * d \<le> n * 2 ^ j" by (rule order_trans)
    then have "2 ^ frac_bits F \<le> (n * 2 ^ j) div d"
      using d by (simp add: less_eq_div_iff_mult_less_eq)
    then have "frac_bits F < bit_length ((n * 2 ^ j) div d)" by (rule bit_length_ge)
    then have norm: "frac_bits F + 1 \<le> bit_length ((n * 2 ^ j) div d)" by simp
    have "round_at F ((n * 2 ^ j) * 2 ^ (K - j)) d
            (bit_length (((n * 2 ^ j) * 2 ^ (K - j)) div d) - (frac_bits F + 1)) =
          (K - j) * 2 ^ frac_bits F
            + round_at F (n * 2 ^ j) d (bit_length ((n * 2 ^ j) div d) - (frac_bits F + 1))"
      by (rule round_at_normal_shift [OF d norm])
    then show ?thesis
      unfolding rs by (simp add: round_mag_def flip: split)
  qed
qed


lemma round_mag_ratio:
  assumes d: "0 < d"
  shows "round_mag F (n * 2 ^ a) (d * 2 ^ b) = round_ratio F n a d b"
proof (cases "b \<le> a")
  case True
  define j where "j = a - b"
  have a: "a = j + b" using True by (simp add: j_def)
  have "round_mag F ((n * 2 ^ j) * 2 ^ b) (d * 2 ^ b) = round_mag F (n * 2 ^ j) d"
    by (rule round_mag_scale) simp
  then have "round_mag F (n * 2 ^ a) (d * 2 ^ b) = round_mag F (n * 2 ^ j) d"
    unfolding a by (simp add: power_add mult.assoc)
  then show ?thesis
    using True by (simp add: round_ratio_def round_mag_shift [OF d] j_def)
next
  case False
  define i where "i = b - a"
  have b: "b = i + a" using False by (simp add: i_def)
  have "round_mag F (n * 2 ^ a) ((d * 2 ^ i) * 2 ^ a) = round_mag F n (d * 2 ^ i)"
    by (rule round_mag_scale) simp
  then have "round_mag F (n * 2 ^ a) (d * 2 ^ b) = round_mag F n (d * 2 ^ i)"
    unfolding b by (simp add: power_add mult.assoc)
  moreover have "round_mag F (n * 2 ^ 0) (d * 2 ^ i) = round_shift F n (d * 2 ^ i) 0"
    by (rule round_mag_shift) (simp add: d)
  ultimately show ?thesis
    using False by (simp add: round_ratio_def i_def push_bit_eq_mult)
qed

subsection \<open>The operations from the fields\<close>

lemma mant_of_eval: "mant_of F m = mant_e F m (drop_bit (frac_bits F) m)"
proof (cases "m div 2 ^ frac_bits F = 0")
  case True
  then have "m mod 2 ^ frac_bits F = m" by (simp add: div_eq_0_iff)
  with True show ?thesis by (simp add: mant_of_def mant_e_def drop_bit_eq_div)
next
  case False
  define e c r where "e = m div 2 ^ frac_bits F" and "c = (2::nat) ^ frac_bits F"
    and "r = m mod 2 ^ frac_bits F"
  have m: "m = e * c + r" unfolding e_def c_def r_def by (simp only: div_mult_mod_eq)
  from False obtain e' where e': "e = Suc e'" unfolding e_def by (cases "m div 2 ^ frac_bits F") auto
  have eq: "m - (e - 1) * c = c + r" unfolding m e' by simp
  have "mant_of F m = c + r" using False by (simp add: mant_of_def c_def r_def)
  moreover have "mant_e F m (drop_bit (frac_bits F) m) = m - (e - 1) * c"
    using False by (simp add: mant_e_def drop_bit_eq_div e_def c_def)
  ultimately show ?thesis using eq by simp
qed

lemma expo_of_eval: "expo_of F m = drop_bit (frac_bits F) m - 1"
  by (simp add: expo_of_def drop_bit_eq_div)

lemma mant_of_pos: "0 < m \<Longrightarrow> 0 < mant_of F m"
  by (auto simp: mant_of_def div_eq_0_iff)

lemma sig_prod:
  "sig_of F mx * sig_of F my = (mant_of F mx * mant_of F my) * 2 ^ (expo_of F mx + expo_of F my)"
  by (simp add: sig_of_parts power_add)

lemma gmul_dec: "gmul F x y = mul_dec F (sign_of F x) (mag_of F x) (sign_of F y) (mag_of F y)"
proof -
  have "round_mag F (sig_of F mx * sig_of F my) (2 ^ quantum_exp F) =
        mul_exp F mx (drop_bit (frac_bits F) mx) my (drop_bit (frac_bits F) my)" for mx my
    using round_mag_ratio [of 1 F "mant_of F mx * mant_of F my" "expo_of F mx + expo_of F my"
        "quantum_exp F"]
    by (simp add: sig_prod mul_exp_def mant_of_eval expo_of_eval)
  then show ?thesis
    by (simp add: gmul_def mul_dec_def is_nan_def is_inf_def)
qed

lemma gdiv_dec: "gdiv F x y = div_dec F (sign_of F x) (mag_of F x) (sign_of F y) (mag_of F y)"
proof -
  have "round_mag F (sig_of F mx * 2 ^ quantum_exp F) (sig_of F my) =
        div_exp F mx (drop_bit (frac_bits F) mx) my (drop_bit (frac_bits F) my)"
    if "0 < my" for mx my
  proof -
    have "sig_of F mx * 2 ^ quantum_exp F = mant_of F mx * 2 ^ (expo_of F mx + quantum_exp F)"
      by (simp add: sig_of_parts power_add)
    then show ?thesis
      using round_mag_ratio [OF mant_of_pos [OF that, of F], of F "mant_of F mx"
          "expo_of F mx + quantum_exp F" "expo_of F my"]
      by (simp add: sig_of_parts [of F my] div_exp_def mant_of_eval expo_of_eval)
  qed
  then show ?thesis
    by (simp add: gdiv_def div_dec_def is_nan_def is_inf_def)
qed

lemma pack_sign_mag:
  "x < 2 * 2 ^ (frac_bits F + exp_bits F) \<Longrightarrow> pack F (sign_of F x) (mag_of F x) = x"
  by (auto simp: pack_def sign_of_def mag_of_def mod_if not_le le_mod_geq)

lemma of_quanta_shift:
  "of_quanta F z (int n * 2 ^ k) =
     (if n = 0 then pack F z 0 else pack F False (round_shift F n 1 k))"
  "of_quanta F z (- (int n * 2 ^ k)) =
     (if n = 0 then pack F z 0 else pack F True (round_shift F n 1 k))"
proof -
  have *: "nat (int n * 2 ^ k) = n * 2 ^ k"
    by (simp add: nat_mult_distrib nat_power_eq)
  have nn: "\<not> int n * 2 ^ k < 0" by (simp add: mult_less_0_iff)
  have pos: "0 < n \<Longrightarrow> 0 < int n * 2 ^ k" by simp
  have rs: "round_mag F (n * 2 ^ k) 1 = round_shift F n 1 k"
    by (rule round_mag_shift) simp
  show "of_quanta F z (int n * 2 ^ k) =
     (if n = 0 then pack F z 0 else pack F False (round_shift F n 1 k))"
    using * nn rs by (simp add: of_quanta_def abs_mult)
  show "of_quanta F z (- (int n * 2 ^ k)) =
     (if n = 0 then pack F z 0 else pack F True (round_shift F n 1 k))"
    using * pos rs by (simp add: of_quanta_def abs_mult)
qed

lemma round_shift_0: "round_shift F 0 d K = 0"
  by (simp add: round_shift_def)

lemma gadd_finite:
  assumes fin: "is_fin F x" "is_fin F y"
    and k: "k \<le> expo_of F (mag_of F x)" "k \<le> expo_of F (mag_of F y)"
  shows "gadd F x y =
     add_aligned F (sign_of F x) (mant_of F (mag_of F x) * 2 ^ (expo_of F (mag_of F x) - k))
       (sign_of F y) (mant_of F (mag_of F y) * 2 ^ (expo_of F (mag_of F y) - k)) k"
proof -
  define A where "A = mant_of F (mag_of F x) * 2 ^ (expo_of F (mag_of F x) - k)"
  define B where "B = mant_of F (mag_of F y) * 2 ^ (expo_of F (mag_of F y) - k)"
  have sx: "sig_of F (mag_of F x) = A * 2 ^ k"
    using k(1) by (simp add: sig_of_parts A_def mult.assoc flip: power_add)
  have sy: "sig_of F (mag_of F y) = B * 2 ^ k"
    using k(2) by (simp add: sig_of_parts B_def mult.assoc flip: power_add)
  have nf: "\<not> is_nan F x" "\<not> is_nan F y" "\<not> is_inf F x" "\<not> is_inf F y"
    using fin by (auto simp: is_fin_def is_nan_def is_inf_def)
  have g: "gadd F x y = of_quanta F (sign_of F x \<and> sign_of F y) (signed_sig F x + signed_sig F y)"
    using nf by (simp add: gadd_def)
  have pm: "B \<le> A \<Longrightarrow> int A * 2 ^ k - int B * 2 ^ k = int (A - B) * 2 ^ k" for A B :: nat
    by (simp add: algebra_simps of_nat_diff)
  have mp: "A \<le> B \<Longrightarrow> int A * 2 ^ k - int B * 2 ^ k = - (int (B - A) * 2 ^ k)" for A B :: nat
    by (simp add: algebra_simps of_nat_diff)
  show ?thesis
  proof (cases "sign_of F x"; cases "sign_of F y")
    assume s: "sign_of F x" "sign_of F y"
    have sum: "signed_sig F x + signed_sig F y = - (int (A + B) * 2 ^ k)"
      using s by (simp add: signed_sig_def sx sy algebra_simps)
    show ?thesis
      unfolding g sum of_quanta_shift A_def [symmetric] B_def [symmetric]
      using s by (simp add: add_aligned_def round_shift_0)
  next
    assume s: "sign_of F x" "\<not> sign_of F y"
    show ?thesis
    proof (cases "B < A")
      case True
      then have sum: "signed_sig F x + signed_sig F y = - (int (A - B) * 2 ^ k)"
        using s mp [of B A] by (simp add: signed_sig_def sx sy)
      show ?thesis
        unfolding g sum of_quanta_shift A_def [symmetric] B_def [symmetric]
        using s True by (simp add: add_aligned_def)
    next
      case False
      then have sum: "signed_sig F x + signed_sig F y = int (B - A) * 2 ^ k"
        using s pm [of A B] by (simp add: signed_sig_def sx sy)
      show ?thesis
        unfolding g sum of_quanta_shift A_def [symmetric] B_def [symmetric]
        using s False by (auto simp: add_aligned_def pack_def round_shift_0)
    qed
  next
    assume s: "\<not> sign_of F x" "sign_of F y"
    show ?thesis
    proof (cases "B < A")
      case True
      then have sum: "signed_sig F x + signed_sig F y = int (A - B) * 2 ^ k"
        using s pm [of B A] by (simp add: signed_sig_def sx sy)
      show ?thesis
        unfolding g sum of_quanta_shift A_def [symmetric] B_def [symmetric]
        using s True by (simp add: add_aligned_def)
    next
      case False
      then have sum: "signed_sig F x + signed_sig F y = - (int (B - A) * 2 ^ k)"
        using s mp [of A B] by (simp add: signed_sig_def sx sy)
      show ?thesis
        unfolding g sum of_quanta_shift A_def [symmetric] B_def [symmetric]
        using s False by (auto simp: add_aligned_def pack_def round_shift_0)
    qed
  next
    assume s: "\<not> sign_of F x" "\<not> sign_of F y"
    have sum: "signed_sig F x + signed_sig F y = int (A + B) * 2 ^ k"
      using s by (simp add: signed_sig_def sx sy algebra_simps)
    show ?thesis
      unfolding g sum of_quanta_shift A_def [symmetric] B_def [symmetric]
      using s by (simp add: add_aligned_def round_shift_0)
  qed
qed

lemma gadd_dec:
  assumes x: "x < 2 * 2 ^ (frac_bits F + exp_bits F)" and y: "y < 2 * 2 ^ (frac_bits F + exp_bits F)"
  shows "gadd F x y = add_dec F (sign_of F x) (mag_of F x) (sign_of F y) (mag_of F y)"
proof (cases "is_fin F x \<and> is_fin F y")
  case True
  then have fin: "is_fin F x" "is_fin F y" by simp_all
  have "gadd F x y =
        add_exp F (sign_of F x) (mag_of F x) (drop_bit (frac_bits F) (mag_of F x))
          (sign_of F y) (mag_of F y) (drop_bit (frac_bits F) (mag_of F y))"
    using gadd_finite [OF fin, of "min (expo_of F (mag_of F x)) (expo_of F (mag_of F y))"]
    by (simp add: add_exp_def add_k_def mant_of_eval expo_of_eval push_bit_eq_mult)
  then show ?thesis
    using fin by (simp add: add_dec_def is_fin_def)
next
  case False
  then show ?thesis
    using pack_sign_mag [OF x] pack_sign_mag [OF y]
    by (auto simp: gadd_def add_dec_def is_fin_def is_nan_def is_inf_def)
qed

lemma literal_eval: "0 < d \<Longrightarrow> literal F n d = round_shift F n d (quantum_exp F)"
  by (simp add: literal_def round_mag_shift)

lemma convert_dec: "convert F G x = conv_dec F G (sign_of F x) (mag_of F x)"
proof -
  have "round_mag G (sig_of F m * 2 ^ quantum_exp G) (2 ^ quantum_exp F) =
        round_ratio G (mant_e F m (drop_bit (frac_bits F) m))
          ((drop_bit (frac_bits F) m - 1) + quantum_exp G) 1 (quantum_exp F)" for m
    using round_mag_ratio [of 1 G "mant_of F m" "expo_of F m + quantum_exp G" "quantum_exp F"]
    by (simp add: sig_of_parts power_add mant_of_eval expo_of_eval mult.assoc)
  then show ?thesis
    by (simp add: convert_def conv_dec_def is_nan_def is_inf_def)
qed

subsection \<open>Rules for evaluating concrete inputs\<close>

text \<open>
  Concrete inputs are evaluated by rewriting with the rules collected here and nothing
  else: the operations from the fields, arithmetic on numerals, and the selectors of the
  record.
\<close>

lemma bit_length_acc:
  "bit_length (numeral (Num.Bit0 k)) + a = bit_length (numeral k) + (a + 1)"
  "bit_length (numeral (Num.Bit1 k)) + a = bit_length (numeral k) + (a + 1)"
  "bit_length (numeral Num.One) + a = a + 1"
  "bit_length 1 + a = a + 1"
  "bit_length (Suc 0) + a = a + 1"
proof -
  have "numeral (Num.Bit0 k) div 2 = (numeral k :: nat)" by simp
  then show "bit_length (numeral (Num.Bit0 k)) + a = bit_length (numeral k) + (a + 1)"
    by (simp add: bit_length_pos)
  have "numeral (Num.Bit1 k) div 2 = (numeral k :: nat)" by simp
  then show "bit_length (numeral (Num.Bit1 k)) + a = bit_length (numeral k) + (a + 1)"
    by (simp add: bit_length_pos)
  show "bit_length (numeral Num.One) + a = a + 1" "bit_length 1 + a = a + 1"
    "bit_length (Suc 0) + a = a + 1"
    by (simp_all add: bit_length_pos)
qed

lemma bl_acc_eval:
  "bl_acc (numeral (Num.Bit0 k)) a = bl_acc (numeral k) (a + 1)"
  "bl_acc (numeral (Num.Bit1 k)) a = bl_acc (numeral k) (a + 1)"
  "bl_acc (numeral Num.One) a = a + 1"
  "bl_acc 1 a = a + 1"
  "bl_acc (Suc 0) a = a + 1"
  unfolding bl_acc_def by (rule bit_length_acc)+

lemma bit_length_eval:
  "bit_length (numeral (Num.Bit0 (Num.Bit0 k))) = bl_acc (numeral k) 2"
  "bit_length (numeral (Num.Bit0 (Num.Bit1 k))) = bl_acc (numeral k) 2"
  "bit_length (numeral (Num.Bit1 (Num.Bit0 k))) = bl_acc (numeral k) 2"
  "bit_length (numeral (Num.Bit1 (Num.Bit1 k))) = bl_acc (numeral k) 2"
  "bit_length 3 = 2" "bit_length 2 = 2"
  "bit_length 1 = 1" "bit_length (Suc 0) = 1"
proof -
  have b: "bit_length (numeral k) = bl_acc (numeral k) 0" for k by (simp add: bl_acc_def)
  show "bit_length (numeral (Num.Bit0 (Num.Bit0 k))) = bl_acc (numeral k) 2"
    "bit_length (numeral (Num.Bit0 (Num.Bit1 k))) = bl_acc (numeral k) 2"
    "bit_length (numeral (Num.Bit1 (Num.Bit0 k))) = bl_acc (numeral k) 2"
    "bit_length (numeral (Num.Bit1 (Num.Bit1 k))) = bl_acc (numeral k) 2"
    unfolding b bl_acc_eval by (simp_all add: numeral_2_eq_2)
  show "bit_length 3 = 2" "bit_length 2 = 2" "bit_length 1 = 1" "bit_length (Suc 0) = 1"
    by (simp_all add: bit_length_pos)
qed

lemma binary32_consts:
  "frac_bits binary32 = 23" "exp_bits binary32 = 8" "inf_mag binary32 = 2139095040"
  "nan_code binary32 = 2143289344" "quantum_exp binary32 = 149"
  by (simp_all add: binary32_def inf_mag_def nan_code_def quantum_exp_def)

lemma binary64_consts:
  "frac_bits binary64 = 52" "exp_bits binary64 = 11" "inf_mag binary64 = 9218868437227405312"
  "nan_code binary64 = 9221120237041090560" "quantum_exp binary64 = 1074"
  by (simp_all add: binary64_def inf_mag_def nan_code_def quantum_exp_def)

lemma sign_mag_32:
  "sign_of binary32 x = (2147483648 \<le> x)"
  "x < 4294967296 \<Longrightarrow> mag_of binary32 x = (if 2147483648 \<le> x then x - 2147483648 else x)"
  "pack binary32 s m = (if s then 2147483648 + m else m)"
  by (auto simp: sign_of_def mag_of_def pack_def binary32_def mod_if not_le le_mod_geq)

lemma sign_mag_64:
  "sign_of binary64 x = (9223372036854775808 \<le> x)"
  "x < 18446744073709551616 \<Longrightarrow>
     mag_of binary64 x = (if 9223372036854775808 \<le> x then x - 9223372036854775808 else x)"
  "pack binary64 s m = (if s then 9223372036854775808 + m else m)"
  by (auto simp: sign_of_def mag_of_def pack_def binary64_def mod_if not_le le_mod_geq)

lemma unat_float_numeral:
  assumes "numeral k < (4294967296::nat)"
  shows "unat (numeral k :: float) = numeral k"
proof -
  have "unat (of_nat n :: float) = n" if "n < 4294967296" for n
    using that by (simp add: unat_of_nat)
  from this [OF assms] show ?thesis by (simp only: of_nat_numeral)
qed

lemma unat_double_numeral:
  assumes "numeral k < (18446744073709551616::nat)"
  shows "unat (numeral k :: double) = numeral k"
proof -
  have "unat (of_nat n :: double) = n" if "n < 18446744073709551616" for n
    using that by (simp add: unat_of_nat)
  from this [OF assms] show ?thesis by (simp only: of_nat_numeral)
qed

lemma unat_float_bound: "unat (x :: float) < 2 * 2 ^ (frac_bits binary32 + exp_bits binary32)"
  using unsigned_less [of x, where 'a = nat] by (simp add: binary32_def)

lemma unat_double_bound: "unat (x :: double) < 2 * 2 ^ (frac_bits binary64 + exp_bits binary64)"
  using unsigned_less [of x, where 'a = nat] by (simp add: binary64_def)

lemma float_ops_eval:
  "fadd x y = of_nat (add_dec binary32 (sign_of binary32 (unat x)) (mag_of binary32 (unat x))
                        (sign_of binary32 (unat y)) (mag_of binary32 (unat y)))"
  "fmul x y = of_nat (mul_dec binary32 (sign_of binary32 (unat x)) (mag_of binary32 (unat x))
                        (sign_of binary32 (unat y)) (mag_of binary32 (unat y)))"
  "fdiv x y = of_nat (div_dec binary32 (sign_of binary32 (unat x)) (mag_of binary32 (unat x))
                        (sign_of binary32 (unat y)) (mag_of binary32 (unat y)))"
  "0 < d \<Longrightarrow> flit n d = of_nat (round_shift binary32 n d (quantum_exp binary32))"
  "static_cast_float z = of_nat (conv_dec binary64 binary32 (sign_of binary64 (unat z)) (mag_of binary64 (unat z)))"
  by (simp_all add: fadd_def fmul_def fdiv_def flit_def static_cast_float_def
      gadd_dec [OF unat_float_bound unat_float_bound] gmul_dec gdiv_dec literal_eval convert_dec)

lemma fsub_eval: "fsub x y = fadd x (fneg y)"
proof -
  have "gneg binary32 (unat y) < 2 ^ 32"
    using unsigned_less [of y, where 'a = nat]
    by (auto simp: gneg_def pack_def sign_of_def mag_of_def binary32_def mod_if not_le)
  then have "unat (of_nat (gneg binary32 (unat y)) :: float) = gneg binary32 (unat y)"
    by (simp add: unat_of_nat)
  then show ?thesis by (simp add: fsub_def gsub_def fadd_def fneg_def)
qed

lemma fneg_eval:
  "fneg x = of_nat (pack binary32 (\<not> sign_of binary32 (unat x)) (mag_of binary32 (unat x)))"
  by (simp add: fneg_def gneg_def)

lemma Update_eval: "Update f sample = Update_with f sample (fadd (fmul sample (b0 f)) (z1 f))"
  by (simp add: Update_def Update_with_def Let_def)

lemma feed_eval:
  "feed (numeral k) x s = feed (pred_numeral k) x (Update (snd s) x)"
  "feed (Suc 0) x s = Update (snd s) x"
  by (simp_all add: numeral_eq_Suc)

lemmas eval_core = binary32_consts binary64_consts sign_mag_32 sign_mag_64 unat_float_numeral unat_double_numeral
  add_dec_def add_exp_def add_k_def add_aligned_def mul_dec_def mul_exp_def div_dec_def div_exp_def conv_dec_def
  round_ratio_def round_shift_def shift_by_def shift_q_def shift_sh_def rhe_q_def rhe_r_def mant_e_def
  bit_length_eval bl_acc_eval
lemmas eval_float = float_ops_eval fsub_eval fneg_eval eval_core



lemma nat_arith_eval:
  "(numeral a :: nat) - numeral b = nat ((numeral a :: int) - numeral b)"
  "(0::nat) - n = 0" "n - (0::nat) = n"
  "nat (numeral k) = numeral k" "nat 0 = 0" "nat 1 = 1" "nat (- numeral k) = 0" "nat (- 1) = 0"
  "min (u::nat) v = (if u \<le> v then u else v)"
  "(1::nat) = numeral Num.One"
  "m div (numeral Num.One :: nat) = m"
  "(0::nat) div m = 0"
  "bit_length (numeral Num.One) = numeral Num.One"
  by (simp_all add: bit_length_pos)

lemma drop_bit_numeral_One: "drop_bit (numeral l) (numeral Num.One :: nat) = 0"
  unfolding numeral_One by simp

lemma word_eval:
  "(of_nat 0 :: 'a::len word) = 0"
  "(of_nat (numeral k) :: 'a::len word) = numeral k"
  "unat (0 :: 'a::len word) = 0"
  by simp_all

lemmas eval_arith = arith_simps rel_simps simp_thms if_True if_False nat_arith_eval
  drop_bit_numeral_One
  drop_bit_numeral_bit0 drop_bit_numeral_bit1 drop_bit_of_0 drop_bit_0 push_bit_numeral push_bit_of_0
  push_bit_0_id id_apply pred_numeral_simps power_numeral pow.simps sqr.simps
  even_numeral odd_numeral even_zero word_eval
  BiquadFilter.simps fst_conv snd_conv power_0 feed.simps(1)
  numeral_div_numeral divmod_algorithm_code divmod_step_def case_prod_conv euclidean_size_nat_def

subsection \<open>Multiplying by one, adding zero\<close>

lemma sig_of_eq_0: "sig_of F m = 0 \<longleftrightarrow> m = 0"
proof (cases "m div 2 ^ frac_bits F = 0")
  case True
  then have "m mod 2 ^ frac_bits F = m" by (simp add: div_eq_0_iff)
  with True show ?thesis by (simp add: sig_of_def)
next
  case False
  then have "m \<noteq> 0" by (cases "m = 0") simp_all
  with False show ?thesis by (simp add: sig_of_def)
qed

lemma round_mag_sig:
  assumes m: "m < inf_mag F"
  shows "round_mag F (sig_of F m) 1 = m"
proof (cases "m div 2 ^ frac_bits F = 0")
  case True
  then have lt: "m < 2 ^ frac_bits F" by (simp add: div_eq_0_iff)
  then have "bit_length m \<le> frac_bits F" by (rule bit_length_le)
  then have "bit_length m - (frac_bits F + 1) = 0" by simp
  moreover have "sig_of F m = m" using True lt by (simp add: sig_of_def)
  ultimately show ?thesis
    using m by (simp add: round_mag_def round_at_def round_half_even_def)
next
  case False
  define e f M where "e = m div 2 ^ frac_bits F" and "f = m mod 2 ^ frac_bits F"
    and "M = 2 ^ frac_bits F + f"
  have e: "0 < e" using False by (simp add: e_def)
  have mdec: "m = e * 2 ^ frac_bits F + f"
    unfolding e_def f_def by (simp only: div_mult_mod_eq)
  have f: "f < 2 ^ frac_bits F" by (simp add: f_def)
  have sig: "sig_of F m = M * 2 ^ (e - 1)"
    using False by (simp add: sig_of_def e_def f_def M_def)
  have lo: "2 ^ frac_bits F \<le> M" by (simp add: M_def)
  have hi: "M < 2 ^ Suc (frac_bits F)" using f by (simp add: M_def)
  have blM: "bit_length M = Suc (frac_bits F)" using lo hi by (rule bit_length_eqI)
  have norm: "frac_bits F + 1 \<le> bit_length (M div 1)" using blM by simp
  have "round_at F (M * 2 ^ (e - 1)) 1 (bit_length ((M * 2 ^ (e - 1)) div 1) - (frac_bits F + 1)) =
        (e - 1) * 2 ^ frac_bits F + round_at F M 1 (bit_length (M div 1) - (frac_bits F + 1))"
    by (rule round_at_normal_shift [OF _ norm]) simp
  also have "round_at F M 1 (bit_length (M div 1) - (frac_bits F + 1)) = M"
    using blM by (simp add: round_at_def round_half_even_def)
  also have "(e - 1) * 2 ^ frac_bits F + M = m"
    using e unfolding mdec M_def by (cases e) (simp_all add: algebra_simps)
  finally show ?thesis
    using m by (simp add: round_mag_def sig)
qed

lemma sign_mag_pack:
  "m < 2 ^ (frac_bits F + exp_bits F) \<Longrightarrow> sign_of F (pack F s m) = s"
  "m < 2 ^ (frac_bits F + exp_bits F) \<Longrightarrow> mag_of F (pack F s m) = m"
  by (auto simp: sign_of_def mag_of_def pack_def)

lemma gmul_unit:
  assumes x: "is_fin F x" "x < 2 * 2 ^ (frac_bits F + exp_bits F)"
    and y: "is_fin F y" "\<not> sign_of F y" "sig_of F (mag_of F y) = 2 ^ quantum_exp F"
  shows "gmul F x y = x" and "gmul F y x = x"
proof -
  have nf: "\<not> is_nan F x" "\<not> is_nan F y" "\<not> is_inf F x" "\<not> is_inf F y"
    using x(1) y(1) by (auto simp: is_fin_def is_nan_def is_inf_def)
  have "round_mag F (sig_of F (mag_of F x) * 2 ^ quantum_exp F) (1 * 2 ^ quantum_exp F) =
        round_mag F (sig_of F (mag_of F x)) 1"
    by (rule round_mag_scale) simp
  also have "\<dots> = mag_of F x"
    using x(1) by (intro round_mag_sig) (simp add: is_fin_def)
  finally have r: "round_mag F (sig_of F (mag_of F x) * 2 ^ quantum_exp F) (2 ^ quantum_exp F) =
                   mag_of F x"
    by simp
  show "gmul F x y = x"
    using nf y(2) r pack_sign_mag [OF x(2)] by (simp add: gmul_def y(3))
  show "gmul F y x = x"
    using nf y(2) r pack_sign_mag [OF x(2)] by (simp add: gmul_def y(3) mult.commute)
qed

lemma gmul_zero:
  assumes "is_fin F x"
  shows "gmul F x 0 = pack F (sign_of F x) 0" and "gmul F 0 x = pack F (sign_of F x) 0"
proof -
  have z: "mag_of F 0 = 0" "\<not> sign_of F 0" "sig_of F 0 = 0"
    by (simp_all add: mag_of_def sign_of_def sig_of_def)
  have i: "0 < inf_mag F \<Longrightarrow> \<not> is_nan F 0 \<and> \<not> is_inf F 0"
    by (simp add: is_nan_def is_inf_def z)
  have "0 < inf_mag F" using assms by (simp add: is_fin_def)
  with i assms show "gmul F x 0 = pack F (sign_of F x) 0" "gmul F 0 x = pack F (sign_of F x) 0"
    by (auto simp: gmul_def z round_mag_0 is_fin_def is_nan_def is_inf_def)
qed

lemma gadd_zero_right:
  assumes x: "is_fin F x" "x < 2 * 2 ^ (frac_bits F + exp_bits F)"
  shows "gadd F x 0 = (if mag_of F x = 0 then 0 else x)"
proof -
  have z: "mag_of F 0 = 0" "\<not> sign_of F 0" "sig_of F 0 = 0"
    by (simp_all add: mag_of_def sign_of_def sig_of_def)
  have pos: "0 < inf_mag F" using x(1) by (simp add: is_fin_def)
  have nf: "\<not> is_nan F x" "\<not> is_nan F 0" "\<not> is_inf F x" "\<not> is_inf F 0"
    using x(1) pos by (auto simp: is_fin_def is_nan_def is_inf_def z)
  have s0: "signed_sig F 0 = 0" by (simp add: signed_sig_def z)
  have g: "gadd F x 0 = of_quanta F False (signed_sig F x)"
    using nf by (simp add: gadd_def z s0)
  show ?thesis
  proof (cases "mag_of F x = 0")
    case True
    then show ?thesis by (simp add: g signed_sig_def of_quanta_def pack_def sig_of_eq_0)
  next
    case False
    then have nz: "sig_of F (mag_of F x) \<noteq> 0" by (simp add: sig_of_eq_0)
    have r: "round_mag F (sig_of F (mag_of F x)) 1 = mag_of F x"
      using x(1) by (intro round_mag_sig) (simp add: is_fin_def)
    have "of_quanta F False (signed_sig F x) = pack F (sign_of F x) (mag_of F x)"
      using nz r by (simp add: of_quanta_def signed_sig_def)
    then show ?thesis using False pack_sign_mag [OF x(2)] by (simp add: g)
  qed
qed

lemma gadd_zeros:
  assumes "0 < inf_mag F" "inf_mag F < 2 ^ (frac_bits F + exp_bits F)"
  shows "gadd F (pack F s 0) (pack F t 0) = pack F (s \<and> t) 0"
proof -
  have p: "0 < (2::nat) ^ (frac_bits F + exp_bits F)" by simp
  have sm: "sign_of F (pack F u 0) = u" "mag_of F (pack F u 0) = 0" for u
    using sign_mag_pack [OF p] by simp_all
  have "signed_sig F (pack F u 0) = 0" for u
    by (simp add: signed_sig_def sm sig_of_def)
  then show ?thesis
    using assms(1) by (simp add: gadd_def is_nan_def is_inf_def sm of_quanta_def)
qed

lemma flit_one: "flit 1 1 = 0x3F800000"
  by (simp only: eval_float eval_arith cong: if_weak_cong)

lemma binary32_widths:
  "0 < inf_mag binary32" "inf_mag binary32 < 2 ^ (frac_bits binary32 + exp_bits binary32)"
  "(2::nat) * 2 ^ (frac_bits binary32 + exp_bits binary32) = 2 ^ 32"
  by (simp_all add: binary32_def inf_mag_def)

lemma unat_pack_zero: "unat (of_nat (pack binary32 s 0) :: float) = pack binary32 s 0"
  by (simp add: pack_def binary32_def unat_of_nat)

lemma float_one_unit:
  "is_fin binary32 (unat (0x3F800000 :: float))"
  "\<not> sign_of binary32 (unat (0x3F800000 :: float))"
  "sig_of binary32 (mag_of binary32 (unat (0x3F800000 :: float))) = 2 ^ quantum_exp binary32"
  by (simp_all add: is_fin_def sign_of_def mag_of_def sig_of_def inf_mag_def quantum_exp_def
      binary32_def)

lemma fmul_one:
  assumes "isfinite x"
  shows "fmul x 0x3F800000 = x"
proof -
  have "gmul binary32 (unat x) (unat (0x3F800000 :: float)) = unat x"
    using assms unat_float_bound [of x] float_one_unit
    by (intro gmul_unit) (simp_all add: isfinite_def)
  then show ?thesis by (simp add: fmul_def)
qed

lemma fmul_zero:
  assumes "isfinite x"
  shows "fmul x 0 = of_nat (pack binary32 (sign_of binary32 (unat x)) 0)"
    and "fmul 0 x = of_nat (pack binary32 (sign_of binary32 (unat x)) 0)"
  using assms gmul_zero [of binary32 "unat x"] by (simp_all add: fmul_def isfinite_def)

lemma fadd_zero:
  assumes "isfinite x"
  shows "fadd x 0 = (if mag_of binary32 (unat x) = 0 then 0 else x)"
  using assms gadd_zero_right [OF _ unat_float_bound, of x]
  by (simp add: fadd_def isfinite_def)

lemma fadd_signed_zeros:
  "fadd (of_nat (pack binary32 s 0)) (of_nat (pack binary32 t 0)) =
   of_nat (pack binary32 (s \<and> t) 0)"
  using gadd_zeros [OF binary32_widths(1,2)] by (simp add: fadd_def unat_pack_zero)

lemma fsub_signed_zeros:
  "fsub (of_nat (pack binary32 s 0)) (of_nat (pack binary32 t 0)) =
   of_nat (pack binary32 (s \<and> \<not> t) 0)"
proof -
  have p: "0 < (2::nat) ^ (frac_bits binary32 + exp_bits binary32)" by simp
  have "gneg binary32 (pack binary32 t 0) = pack binary32 (\<not> t) 0"
    using sign_mag_pack [OF p] by (simp add: gneg_def)
  then show ?thesis
    using gadd_zeros [OF binary32_widths(1,2)] by (simp add: fsub_def gsub_def unat_pack_zero)
qed

lemma pack_False_0: "(of_nat (pack binary32 False 0) :: float) = 0"
  by (simp add: pack_def)

lemma neg_zero_iff:
  "mag_of binary32 (unat (x :: float)) = 0 \<longleftrightarrow> x = 0 \<or> x = 0x80000000"
proof -
  have b: "unat x < 2 ^ 32" using unsigned_less [of x, where 'a = nat] by simp
  have "unat x mod 2 ^ 31 = 0 \<longleftrightarrow> unat x = 0 \<or> unat x = 2 ^ 31"
    using b by (auto simp: mod_if not_less le_mod_geq)
  moreover have "unat x = 2 ^ 31 \<longleftrightarrow> x = 0x80000000"
    by (simp add: word_unat_eq_iff)
  ultimately show ?thesis
    by (simp add: mag_of_def binary32_def unat_eq_0)
qed

lemma BiquadFilter_default_fields:
  "BiquadFilter_default =
     \<lparr>b0 = 0x3F800000, b1 = 0, b2 = 0, a1 = 0, a2 = 0, z1 = 0, z2 = 0\<rparr>"
  unfolding BiquadFilter_default_def flit_zero flit_one ..

lemma isfinite_0: "isfinite 0"
  by (simp add: isfinite_def is_fin_def mag_of_def inf_mag_def binary32_def)

lemma sign_of_0: "\<not> sign_of binary32 0"
  by (simp add: sign_of_def)

lemma fequal_finite_refl: "isfinite x \<Longrightarrow> fequal x x"
  by (simp add: fequal_def gequal_def isfinite_def is_fin_def is_nan_def)

lemma fequal_zeros:
  assumes "mag_of binary32 (unat x) = 0" and "mag_of binary32 (unat y) = 0"
  shows "fequal x y"
proof -
  have "0 < inf_mag binary32" by (rule binary32_widths)
  then show ?thesis
    using assms by (simp add: fequal_def gequal_def is_nan_def signed_sig_def sig_of_def)
qed

lemma default_update:
  assumes fin: "isfinite x"
  shows "Update BiquadFilter_default x =
     (if mag_of binary32 (unat x) = 0 then 0 else x,
      BiquadFilter_default
        \<lparr>z2 := of_nat (pack binary32
                 (sign_of binary32 (unat x) \<and> mag_of binary32 (unat x) = 0) 0)\<rparr>)"
proof -
  define r where "r = (if mag_of binary32 (unat x) = 0 then 0 else x)"
  have r: "fadd (fmul x 0x3F800000) 0 = r"
    using fin by (simp add: fmul_one fadd_zero r_def)
  have rfin: "isfinite r" using fin by (simp add: r_def isfinite_0)
  have sr: "sign_of binary32 (unat r) =
            (sign_of binary32 (unat x) \<and> mag_of binary32 (unat x) \<noteq> 0)"
    by (simp add: r_def sign_of_0)
  have z0: "(0 :: float) = of_nat (pack binary32 False 0)" by (simp add: pack_False_0)
  have z1': "fsub (fadd (fmul x 0) 0) (fmul 0 r) = 0"
  proof -
    have a0: "fadd (of_nat (pack binary32 s 0)) (of_nat (pack binary32 False 0)) =
              (of_nat (pack binary32 False 0) :: float)" for s
      by (simp only: fadd_signed_zeros simp_thms)
    have b0: "fsub (of_nat (pack binary32 False 0)) (of_nat (pack binary32 t 0)) =
              (of_nat (pack binary32 False 0) :: float)" for t
      by (simp only: fsub_signed_zeros simp_thms)
    note a = a0 [unfolded pack_False_0] and b = b0 [unfolded pack_False_0]
    show ?thesis
      unfolding fmul_zero [OF fin] fmul_zero [OF rfin] a b ..
  qed
  have z2': "fsub (fmul x 0) (fmul 0 r) =
             of_nat (pack binary32 (sign_of binary32 (unat x) \<and> mag_of binary32 (unat x) = 0) 0)"
    unfolding fmul_zero [OF fin] fmul_zero [OF rfin] fsub_signed_zeros sr
    by (rule arg_cong [where f = "\<lambda>s. of_nat (pack binary32 s 0)"]) auto
  show ?thesis
    unfolding Update_def Let_def BiquadFilter_default_fields
    by (simp add: r z1' z2' flip: r_def)
qed


subsection \<open>Halving is dividing by two\<close>

lemma flit_half: "flit 1 2 = 0x3F000000"
  by (simp only: eval_float eval_arith cong: if_weak_cong)

lemma flit_two: "flit 2 1 = 0x40000000"
  by (simp only: eval_float eval_arith cong: if_weak_cong)

lemma gmul_half_gdiv_two:
  assumes h: "\<not> is_nan F h" "\<not> is_inf F h" "\<not> sign_of F h" "mag_of F h \<noteq> 0"
      "2 * sig_of F (mag_of F h) = 2 ^ quantum_exp F"
    and t: "\<not> is_nan F t" "\<not> is_inf F t" "\<not> sign_of F t" "mag_of F t \<noteq> 0"
      "sig_of F (mag_of F t) = 2 * 2 ^ quantum_exp F"
  shows "gmul F x h = gdiv F x t"
proof -
  define H where "H = sig_of F (mag_of F h)"
  have "H \<noteq> 0" using h(4) unfolding H_def sig_of_eq_0 .
  then have H: "0 < H" by simp
  have q: "2 ^ quantum_exp F = 2 * H" using h(5) by (simp add: H_def)
  have "round_mag F (n * H) (2 * H) = round_mag F n 2" for n
    by (rule round_mag_scale) (rule H)
  moreover have "round_mag F (n * (2 * H)) (2 * (2 * H)) = round_mag F n 2" for n
    by (rule round_mag_scale) (simp add: H)
  ultimately have r: "round_mag F (n * H) (2 * H) = round_mag F (n * (2 * H)) (2 * (2 * H))" for n
    by simp
  have "0 < inf_mag F" using h(1,4) by (simp add: is_nan_def)
  then have i: "is_inf F x \<Longrightarrow> mag_of F x \<noteq> 0" by (simp add: is_inf_def)
  show ?thesis
    unfolding gmul_def gdiv_def t(5) q H_def [symmetric]
    using h(1-4) t(1-4) i by (auto simp: r)
qed

lemma float_half_two:
  "\<not> is_nan binary32 (unat (0x3F000000 :: float))" "\<not> is_inf binary32 (unat (0x3F000000 :: float))"
  "\<not> sign_of binary32 (unat (0x3F000000 :: float))"
  "mag_of binary32 (unat (0x3F000000 :: float)) \<noteq> 0"
  "2 * sig_of binary32 (mag_of binary32 (unat (0x3F000000 :: float))) = 2 ^ quantum_exp binary32"
  "\<not> is_nan binary32 (unat (0x40000000 :: float))" "\<not> is_inf binary32 (unat (0x40000000 :: float))"
  "\<not> sign_of binary32 (unat (0x40000000 :: float))"
  "mag_of binary32 (unat (0x40000000 :: float)) \<noteq> 0"
  "sig_of binary32 (mag_of binary32 (unat (0x40000000 :: float))) = 2 * 2 ^ quantum_exp binary32"
  by (simp_all add: is_nan_def is_inf_def sign_of_def mag_of_def sig_of_def inf_mag_def
      quantum_exp_def binary32_def)

lemma fmul_half_eq_fdiv_two: "fmul x (flit 1 2) = fdiv x (flit 2 1)"
  unfolding fmul_def fdiv_def flit_half flit_two
  by (rule arg_cong [where f = of_nat]) (rule gmul_half_gdiv_two [OF float_half_two])


section \<open>Rounding is monotone\<close>

lemma round_half_even_bounds:
  assumes d: "0 < d"
  shows "2 * (round_half_even n d * d) \<le> 2 * n + d"
    and "2 * n \<le> 2 * (round_half_even n d * d) + d"
    and "2 * (round_half_even n d * d) = 2 * n + d \<Longrightarrow> even (round_half_even n d)"
    and "2 * n = 2 * (round_half_even n d * d) + d \<Longrightarrow> even (round_half_even n d)"
proof -
  define Q m where "Q = n div d * d" and "m = n mod d"
  have n: "n = Q + m" by (simp add: Q_def m_def)
  have m: "m < d" using d by (simp add: m_def)
  have r: "round_half_even n d =
     (if 2 * m < d then n div d else if d < 2 * m then n div d + 1
      else if even (n div d) then n div d else n div d + 1)"
    by (simp add: round_half_even_def m_def)
  have s: "(n div d + 1) * d = Q + d" by (simp add: Q_def)
  show "2 * (round_half_even n d * d) \<le> 2 * n + d"
    unfolding r using n m s by (auto simp: Q_def [symmetric])
  show "2 * n \<le> 2 * (round_half_even n d * d) + d"
    unfolding r using n m s by (auto simp: Q_def [symmetric])
  show "2 * (round_half_even n d * d) = 2 * n + d \<Longrightarrow> even (round_half_even n d)"
    unfolding r using n m s d by (auto simp: Q_def [symmetric] split: if_splits)
  show "2 * n = 2 * (round_half_even n d * d) + d \<Longrightarrow> even (round_half_even n d)"
    unfolding r using n m s d by (auto simp: Q_def [symmetric] split: if_splits)
qed

lemma round_half_even_mono:
  assumes d: "0 < d" "0 < d'" and le: "n * d' \<le> n' * d"
  shows "round_half_even n d \<le> round_half_even n' d'"
proof (rule ccontr)
  define r r' X where "r = round_half_even n d" and "r' = round_half_even n' d'" and "X = d * d'"
  assume "\<not> round_half_even n d \<le> round_half_even n' d'"
  then have "r' + 1 \<le> r" by (simp add: r_def r'_def)
  then have "(r' + 1) * X \<le> r * X" by (rule mult_le_mono1)
  then have D: "r' * X + X \<le> r * X" by simp
  have "(2 * (r * d)) * d' \<le> (2 * n + d) * d'"
    unfolding r_def by (rule mult_le_mono1) (rule round_half_even_bounds(1) [OF d(1)])
  then have A: "2 * (r * X) \<le> 2 * (n * d') + X" by (simp add: X_def algebra_simps)
  have "(2 * n') * d \<le> (2 * (r' * d') + d') * d"
    unfolding r'_def by (rule mult_le_mono1) (rule round_half_even_bounds(2) [OF d(2)])
  then have B: "2 * (n' * d) \<le> 2 * (r' * X) + X" by (simp add: X_def algebra_simps)
  from A B D le have E1: "2 * (r * X) = 2 * (n * d') + X" and E2: "2 * (n' * d) = 2 * (r' * X) + X"
    and E3: "r' * X + X = r * X" by linarith+
  from E1 have "(2 * (r * d)) * d' = (2 * n + d) * d'" by (simp add: X_def algebra_simps)
  with d(2) have "2 * (r * d) = 2 * n + d" by simp
  then have er: "even r" unfolding r_def by (rule round_half_even_bounds(3) [OF d(1)])
  from E2 have "(2 * n') * d = (2 * (r' * d') + d') * d" by (simp add: X_def algebra_simps)
  with d(1) have "2 * n' = 2 * (r' * d') + d'" by simp
  then have er': "even r'" unfolding r'_def by (rule round_half_even_bounds(4) [OF d(2)])
  have X: "0 < X" using d by (simp add: X_def)
  have "r \<le> r' + 1"
  proof (rule ccontr)
    assume "\<not> r \<le> r' + 1"
    then have "r' + 2 \<le> r" by simp
    then have "(r' + 2) * X \<le> r * X" by (rule mult_le_mono1)
    with E3 X show False by simp
  qed
  with \<open>r' + 1 \<le> r\<close> have "r = r' + 1" by simp
  with er er' show False by simp
qed

lemma bit_length_mono: "m \<le> n \<Longrightarrow> bit_length m \<le> bit_length n"
  using bit_length_upper [of n] by (intro bit_length_le) simp

lemma div_mono_ratio:
  assumes d: "0 < d" "0 < d'" and le: "n * d' \<le> n' * (d::nat)"
  shows "n div d \<le> n' div d'"
proof -
  have "n div d * d \<le> n" by simp
  then have "n div d * d * d' \<le> n * d'" by (rule mult_le_mono1)
  then have "n div d * d * d' \<le> n' * d" using le by (rule order_trans)
  moreover have "n div d * d * d' = (n div d * d') * d" by (simp only: mult_ac)
  ultimately have "(n div d * d') * d \<le> n' * d" by (simp only:)
  with d(1) have "n div d * d' \<le> n'"
    using mult_le_cancel2 [of "n div d * d'" d n'] by blast
  with d(2) show ?thesis by (simp add: less_eq_div_iff_mult_less_eq)
qed

lemma round_at_upper:
  assumes d: "0 < d"
  shows "round_at F n d (bit_length (n div d) - (frac_bits F + 1)) \<le>
         (bit_length (n div d) - (frac_bits F + 1) + 2) * 2 ^ frac_bits F"
proof -
  define sh where "sh = bit_length (n div d) - (frac_bits F + 1)"
  have "bit_length (n div d) \<le> sh + frac_bits F + 1" by (simp add: sh_def)
  then have "(2::nat) ^ bit_length (n div d) \<le> 2 ^ (sh + frac_bits F + 1)"
    by (rule power_increasing) simp
  with bit_length_upper [of "n div d"] have "n div d < 2 ^ (frac_bits F + 1) * 2 ^ sh"
    by (simp add: power_add algebra_simps)
  then have "n div d div 2 ^ sh < 2 ^ (frac_bits F + 1)"
    by (simp add: less_mult_imp_div_less)
  then have "n div (d * 2 ^ sh) < 2 ^ (frac_bits F + 1)" by (simp add: div_mult2_eq)
  moreover have "round_half_even n (d * 2 ^ sh) \<le> n div (d * 2 ^ sh) + 1"
    by (simp add: round_half_even_def)
  ultimately have "round_half_even n (d * 2 ^ sh) \<le> 2 * 2 ^ frac_bits F" by simp
  then show ?thesis unfolding sh_def [symmetric] by (simp add: round_at_def algebra_simps)
qed

lemma round_at_lower:
  assumes d: "0 < d" and sh: "0 < bit_length (n div d) - (frac_bits F + 1)"
  shows "(bit_length (n div d) - (frac_bits F + 1) + 1) * 2 ^ frac_bits F \<le>
         round_at F n d (bit_length (n div d) - (frac_bits F + 1))"
proof -
  define sh where "sh = bit_length (n div d) - (frac_bits F + 1)"
  from sh have L: "bit_length (n div d) = sh + frac_bits F + 1" by (simp add: sh_def)
  then have pos: "0 < n div d" by (cases "n div d = 0") auto
  have "2 ^ (frac_bits F + sh) \<le> n div d"
    using bit_length_lower [OF pos] L by (simp add: add.commute)
  then have "2 ^ frac_bits F * 2 ^ sh \<le> n div d" by (simp add: power_add)
  then have "2 ^ frac_bits F \<le> n div d div 2 ^ sh"
    by (simp add: less_eq_div_iff_mult_less_eq)
  then have "2 ^ frac_bits F \<le> n div (d * 2 ^ sh)" by (simp add: div_mult2_eq)
  moreover have "n div (d * 2 ^ sh) \<le> round_half_even n (d * 2 ^ sh)"
    by (simp add: round_half_even_def)
  ultimately have "2 ^ frac_bits F \<le> round_half_even n (d * 2 ^ sh)" by simp
  then show ?thesis unfolding sh_def [symmetric] by (simp add: round_at_def algebra_simps)
qed

lemma round_mag_mono:
  assumes d: "0 < d" "0 < d'" and le: "n * d' \<le> n' * d"
  shows "round_mag F n d \<le> round_mag F n' d'"
proof -
  define sh sh' where "sh = bit_length (n div d) - (frac_bits F + 1)"
    and "sh' = bit_length (n' div d') - (frac_bits F + 1)"
  have "n div d \<le> n' div d'" using d le by (rule div_mono_ratio)
  then have shs: "sh \<le> sh'" unfolding sh_def sh'_def
    by (intro diff_le_mono bit_length_mono)
  have "round_at F n d sh \<le> round_at F n' d' sh'"
  proof (cases "sh = sh'")
    case True
    have "n * (d' * 2 ^ sh) \<le> n' * (d * 2 ^ sh)"
      using mult_le_mono1 [OF le, of "2 ^ sh"] by (simp add: algebra_simps)
    then have "round_half_even n (d * 2 ^ sh) \<le> round_half_even n' (d' * 2 ^ sh)"
      using d by (intro round_half_even_mono) simp_all
    with True show ?thesis by (simp add: round_at_def)
  next
    case False
    with shs have lt: "sh + 1 \<le> sh'" by simp
    then have pos: "0 < bit_length (n' div d') - (frac_bits F + 1)" by (simp add: sh'_def)
    have "round_at F n d sh \<le> (sh + 2) * 2 ^ frac_bits F"
      unfolding sh_def by (rule round_at_upper [OF d(1)])
    also have "\<dots> \<le> (sh' + 1) * 2 ^ frac_bits F" using lt by (intro mult_le_mono1) simp
    also have "\<dots> \<le> round_at F n' d' sh'"
      unfolding sh'_def by (rule round_at_lower [OF d(2) pos])
    finally show ?thesis .
  qed
  then show ?thesis
    unfolding round_mag_def sh_def sh'_def by (simp add: min_le_iff_disj)
qed

lemma sig_of_mono:
  assumes "m \<le> m'"
  shows "sig_of F m \<le> sig_of F m'"
proof -
  define f where "f = frac_bits F"
  define e e' t t' where "e = m div 2 ^ f" and "e' = m' div 2 ^ f"
    and "t = m mod 2 ^ f" and "t' = m' mod 2 ^ f"
  have ee: "e \<le> e'" using assms by (simp add: e_def e'_def div_le_mono)
  have t: "t < 2 ^ f" "t' < 2 ^ f" by (simp_all add: t_def t'_def)
  have m: "m = e * 2 ^ f + t" "m' = e' * 2 ^ f + t'"
    by (simp_all only: e_def e'_def t_def t'_def div_mult_mod_eq)
  have s: "sig_of F m = (if e = 0 then t else (2 ^ f + t) * 2 ^ (e - 1))"
    "sig_of F m' = (if e' = 0 then t' else (2 ^ f + t') * 2 ^ (e' - 1))"
    by (simp_all add: sig_of_def e_def e'_def t_def t'_def f_def)
  show ?thesis
  proof (cases "e = e'")
    case True
    with assms m have "t \<le> t'" by simp
    with True show ?thesis unfolding s by simp
  next
    case False
    with ee have lt: "e < e'" by simp
    have "sig_of F m \<le> 2 ^ f * 2 ^ e"
    proof (cases "e = 0")
      case True
      with t show ?thesis unfolding s by simp
    next
      case False
      have "(2 ^ f + t) * 2 ^ (e - 1) \<le> (2 * 2 ^ f) * 2 ^ (e - 1)"
        using t by (intro mult_le_mono1) simp
      also have "\<dots> = 2 ^ f * 2 ^ e" using False by (cases e) simp_all
      finally show ?thesis using False unfolding s by simp
    qed
    also have "2 ^ f * 2 ^ e \<le> 2 ^ f * (2::nat) ^ (e' - 1)"
      using lt by (intro mult_le_mono2 power_increasing) simp_all
    also have "\<dots> \<le> (2 ^ f + t') * 2 ^ (e' - 1)" by (intro mult_le_mono1) simp
    also have "\<dots> = sig_of F m'" using lt unfolding s by simp
    finally show ?thesis .
  qed
qed

text \<open>The value nearest to a bound that is a value itself stays on its side of it.\<close>

lemma round_mag_le:
  assumes d: "0 < d" and b: "b < inf_mag F" and le: "n \<le> sig_of F b * d"
  shows "round_mag F n d \<le> b"
proof -
  have "round_mag F n d \<le> round_mag F (sig_of F b * d) (1 * d)"
    using d le by (intro round_mag_mono) simp_all
  also have "\<dots> = round_mag F (sig_of F b) 1" using d by (rule round_mag_scale)
  also have "\<dots> = b" using b by (rule round_mag_sig)
  finally show ?thesis .
qed

lemma round_mag_ge:
  assumes d: "0 < d" and b: "b < inf_mag F" and le: "sig_of F b * d \<le> n"
  shows "b \<le> round_mag F n d"
proof -
  have "b = round_mag F (sig_of F b) 1" using b by (rule round_mag_sig [symmetric])
  also have "\<dots> = round_mag F (sig_of F b * d) (1 * d)" using d by (rule round_mag_scale [symmetric])
  also have "\<dots> \<le> round_mag F n d" using d le by (intro round_mag_mono) simp_all
  finally show ?thesis .
qed

section \<open>Bounds on the results of the operations\<close>

lemma round_mag_le_inf: "round_mag F n d \<le> inf_mag F"
  by (simp add: round_mag_def)

lemma unat_pack:
  assumes "m \<le> inf_mag binary32"
  shows "unat (of_nat (pack binary32 s m) :: float) = pack binary32 s m"
proof -
  have "pack binary32 s m < 2 ^ 32"
    using assms by (simp add: pack_def binary32_def inf_mag_def)
  then show ?thesis by (simp add: unat_of_nat)
qed

lemma float_of_pack:
  assumes "m \<le> inf_mag binary32"
  shows "signbit (of_nat (pack binary32 s m)) = s"
    and "magnitude (of_nat (pack binary32 s m)) = sig_of binary32 m"
    and "isfinite (of_nat (pack binary32 s m)) = (m < inf_mag binary32)"
proof -
  have lt: "m < 2 ^ (frac_bits binary32 + exp_bits binary32)"
    using assms binary32_widths(2) by simp
  show "signbit (of_nat (pack binary32 s m)) = s"
    by (simp add: signbit_def unat_pack [OF assms] sign_mag_pack [OF lt])
  show "magnitude (of_nat (pack binary32 s m)) = sig_of binary32 m"
    by (simp add: magnitude_def unat_pack [OF assms] sign_mag_pack [OF lt])
  show "isfinite (of_nat (pack binary32 s m)) = (m < inf_mag binary32)"
    by (simp add: isfinite_def is_fin_def unat_pack [OF assms] sign_mag_pack [OF lt])
qed

lemma finite_not_special:
  assumes "isfinite x"
  shows "\<not> is_nan binary32 (unat x)" "\<not> is_inf binary32 (unat x)"
  using assms by (simp_all add: isfinite_def is_fin_def is_nan_def is_inf_def)

lemma magnitude_pos: "0 < magnitude x \<longleftrightarrow> mag_of binary32 (unat x) \<noteq> 0"
  using sig_of_eq_0 [of binary32 "mag_of binary32 (unat x)"] unfolding magnitude_def by auto

lemma quanta_cases:
  "quanta x = (if signbit x then - int (magnitude x) else int (magnitude x))"
  by (simp add: quanta_def signed_sig_def signbit_def magnitude_def)

lemma fmul_finite:
  assumes "isfinite x" "isfinite y"
  shows "fmul x y = of_nat (pack binary32 (signbit x \<noteq> signbit y)
           (round_mag binary32 (magnitude x * magnitude y) (2 ^ quantum_exp binary32)))"
  using finite_not_special [OF assms(1)] finite_not_special [OF assms(2)]
  by (simp add: fmul_def gmul_def signbit_def magnitude_def)

lemma fdiv_finite:
  assumes "isfinite x" "isfinite y" "0 < magnitude y"
  shows "fdiv x y = of_nat (pack binary32 (signbit x \<noteq> signbit y)
           (round_mag binary32 (magnitude x * 2 ^ quantum_exp binary32) (magnitude y)))"
  using finite_not_special [OF assms(1)] finite_not_special [OF assms(2)] assms(3)
  by (simp add: fdiv_def gdiv_def signbit_def magnitude_pos) (simp add: magnitude_def)

lemma fdiv_by_infinity:
  assumes "isfinite x" "\<not> isfinite y" "\<not> isnan y"
  shows "fdiv x y = of_nat (pack binary32 (signbit x \<noteq> signbit y) 0)"
  using finite_not_special [OF assms(1)] assms(2,3)
  by (auto simp: fdiv_def gdiv_def signbit_def isfinite_def isnan_def is_fin_def is_nan_def
      is_inf_def)

lemma fadd_finite:
  assumes "isfinite x" "isfinite y"
  shows "fadd x y = of_nat (of_quanta binary32 (signbit x \<and> signbit y) (quanta x + quanta y))"
  using finite_not_special [OF assms(1)] finite_not_special [OF assms(2)]
  by (simp add: fadd_def gadd_def signbit_def quanta_def)

lemma fneg_parts:
  "signbit (fneg x) = (\<not> signbit x)" "magnitude (fneg x) = magnitude x"
  "isfinite (fneg x) = isfinite x" "quanta (fneg x) = - quanta x"
proof -
  have lt: "mag_of binary32 (unat x) < 2 ^ (frac_bits binary32 + exp_bits binary32)"
    by (simp add: mag_of_def)
  have "pack binary32 (\<not> sign_of binary32 (unat x)) (mag_of binary32 (unat x)) < 2 ^ 32"
    using lt by (simp add: pack_def binary32_def)
  then have u: "unat (fneg x) = pack binary32 (\<not> sign_of binary32 (unat x)) (mag_of binary32 (unat x))"
    by (simp add: fneg_def gneg_def unat_of_nat)
  show s: "signbit (fneg x) = (\<not> signbit x)"
    by (simp add: signbit_def u sign_mag_pack [OF lt])
  show m: "magnitude (fneg x) = magnitude x"
    by (simp add: magnitude_def u sign_mag_pack [OF lt])
  show "isfinite (fneg x) = isfinite x"
    by (simp add: isfinite_def is_fin_def u sign_mag_pack [OF lt])
  show "quanta (fneg x) = - quanta x"
    by (simp add: quanta_cases s m)
qed

text \<open>Bounds on the results, by values of the format.\<close>

lemma fmul_bounded:
  assumes fin: "isfinite x" "isfinite y" and b: "isfinite b"
    and le: "magnitude x * magnitude y \<le> magnitude b * 2 ^ quantum_exp binary32"
  shows "isfinite (fmul x y)" and "magnitude (fmul x y) \<le> magnitude b"
    and "signbit (fmul x y) = (signbit x \<noteq> signbit y)"
proof -
  define m where
    "m = round_mag binary32 (magnitude x * magnitude y) (2 ^ quantum_exp binary32)"
  have bm: "mag_of binary32 (unat b) < inf_mag binary32"
    using b by (simp add: isfinite_def is_fin_def)
  have m: "m \<le> mag_of binary32 (unat b)"
    unfolding m_def using le by (intro round_mag_le bm) (simp_all add: magnitude_def)
  then have mi: "m \<le> inf_mag binary32" using bm by simp
  have r: "fmul x y = of_nat (pack binary32 (signbit x \<noteq> signbit y) m)"
    unfolding m_def by (rule fmul_finite [OF fin])
  show "isfinite (fmul x y)" using m bm by (simp add: r float_of_pack [OF mi])
  show "magnitude (fmul x y) \<le> magnitude b"
    unfolding r float_of_pack(2) [OF mi] unfolding magnitude_def by (rule sig_of_mono [OF m])
  show "signbit (fmul x y) = (signbit x \<noteq> signbit y)"
    by (simp add: r float_of_pack [OF mi])
qed

lemma fdiv_bounded:
  assumes fin: "isfinite x" "isfinite y" and pos: "0 < magnitude y" and b: "isfinite b"
    and le: "magnitude x * 2 ^ quantum_exp binary32 \<le> magnitude b * magnitude y"
  shows "isfinite (fdiv x y)" and "magnitude (fdiv x y) \<le> magnitude b"
    and "signbit (fdiv x y) = (signbit x \<noteq> signbit y)"
proof -
  define m where
    "m = round_mag binary32 (magnitude x * 2 ^ quantum_exp binary32) (magnitude y)"
  have bm: "mag_of binary32 (unat b) < inf_mag binary32"
    using b by (simp add: isfinite_def is_fin_def)
  have m: "m \<le> mag_of binary32 (unat b)"
    unfolding m_def using le pos by (intro round_mag_le bm) (simp_all add: magnitude_def)
  then have mi: "m \<le> inf_mag binary32" using bm by simp
  have r: "fdiv x y = of_nat (pack binary32 (signbit x \<noteq> signbit y) m)"
    unfolding m_def by (rule fdiv_finite [OF fin pos])
  show "isfinite (fdiv x y)" using m bm by (simp add: r float_of_pack [OF mi])
  show "magnitude (fdiv x y) \<le> magnitude b"
    unfolding r float_of_pack(2) [OF mi] unfolding magnitude_def by (rule sig_of_mono [OF m])
  show "signbit (fdiv x y) = (signbit x \<noteq> signbit y)"
    by (simp add: r float_of_pack [OF mi])
qed

lemma fadd_bounded:
  assumes fin: "isfinite x" "isfinite y" and b: "isfinite b"
    and le: "\<bar>quanta x + quanta y\<bar> \<le> int (magnitude b)"
  shows "isfinite (fadd x y)" and "magnitude (fadd x y) \<le> magnitude b"
proof -
  define s where "s = quanta x + quanta y"
  define m where "m = round_mag binary32 (nat \<bar>s\<bar>) 1"
  have bm: "mag_of binary32 (unat b) < inf_mag binary32"
    using b by (simp add: isfinite_def is_fin_def)
  have "nat \<bar>s\<bar> \<le> magnitude b" using le by (simp add: s_def)
  then have m: "m \<le> mag_of binary32 (unat b)"
    unfolding m_def by (intro round_mag_le bm) (simp_all add: magnitude_def)
  then have mi: "m \<le> inf_mag binary32" using bm by simp
  have r: "fadd x y = of_nat (pack binary32 (if s = 0 then signbit x \<and> signbit y else s < 0) m)"
    by (simp add: fadd_finite [OF fin] of_quanta_def s_def [symmetric] m_def round_mag_0)
  show "isfinite (fadd x y)" using m bm by (simp add: r float_of_pack [OF mi])
  show "magnitude (fadd x y) \<le> magnitude b"
    unfolding r float_of_pack(2) [OF mi] unfolding magnitude_def by (rule sig_of_mono [OF m])
qed

lemma fadd_lower:
  assumes fin: "isfinite x" "isfinite y" and b: "isfinite b" "0 < magnitude b"
    and le: "int (magnitude b) \<le> quanta x + quanta y"
  shows "\<not> signbit (fadd x y)" and "magnitude b \<le> magnitude (fadd x y)"
proof -
  define s where "s = quanta x + quanta y"
  define m where "m = round_mag binary32 (nat \<bar>s\<bar>) 1"
  have bm: "mag_of binary32 (unat b) < inf_mag binary32"
    using b by (simp add: isfinite_def is_fin_def)
  have s: "0 < s" using le b(2) by (simp add: s_def)
  have "magnitude b \<le> nat \<bar>s\<bar>" using le by (simp add: s_def)
  then have m: "mag_of binary32 (unat b) \<le> m"
    unfolding m_def by (intro round_mag_ge bm) (simp_all add: magnitude_def)
  have mi: "m \<le> inf_mag binary32" unfolding m_def by (rule round_mag_le_inf)
  have r: "fadd x y = of_nat (pack binary32 False m)"
    using s by (simp add: fadd_finite [OF fin] of_quanta_def s_def [symmetric] m_def)
  show "\<not> signbit (fadd x y)" by (simp add: r float_of_pack [OF mi])
  show "magnitude b \<le> magnitude (fadd x y)"
    unfolding r float_of_pack(2) [OF mi] unfolding magnitude_def by (rule sig_of_mono [OF m])
qed

lemma fmul_lower:
  assumes fin: "isfinite x" "isfinite y" and b: "isfinite b"
    and le: "magnitude b * 2 ^ quantum_exp binary32 \<le> magnitude x * magnitude y"
  shows "magnitude b \<le> magnitude (fmul x y)" and "\<not> isnan (fmul x y)"
    and "signbit (fmul x y) = (signbit x \<noteq> signbit y)"
proof -
  define m where
    "m = round_mag binary32 (magnitude x * magnitude y) (2 ^ quantum_exp binary32)"
  have bm: "mag_of binary32 (unat b) < inf_mag binary32"
    using b by (simp add: isfinite_def is_fin_def)
  have m: "mag_of binary32 (unat b) \<le> m"
    unfolding m_def using le by (intro round_mag_ge bm) (simp_all add: magnitude_def)
  have mi: "m \<le> inf_mag binary32" unfolding m_def by (rule round_mag_le_inf)
  then have lt: "m < 2 ^ (frac_bits binary32 + exp_bits binary32)"
    using binary32_widths(2) by simp
  have r: "fmul x y = of_nat (pack binary32 (signbit x \<noteq> signbit y) m)"
    unfolding m_def by (rule fmul_finite [OF fin])
  show "magnitude b \<le> magnitude (fmul x y)"
    unfolding r float_of_pack(2) [OF mi] unfolding magnitude_def by (rule sig_of_mono [OF m])
  show "\<not> isnan (fmul x y)"
    using mi by (simp add: r isnan_def is_nan_def unat_pack [OF mi] sign_mag_pack [OF lt])
  show "signbit (fmul x y) = (signbit x \<noteq> signbit y)"
    by (simp add: r float_of_pack [OF mi])
qed

lemma pow2_scale:
  fixes a b :: nat
  assumes "a \<le> 2 ^ i" "2 ^ j \<le> b" "i + k \<le> l + j"
  shows "a * 2 ^ k \<le> 2 ^ l * b"
proof -
  have "a * 2 ^ k \<le> 2 ^ i * 2 ^ k" using assms(1) by (rule mult_le_mono1)
  also have "\<dots> = 2 ^ (i + k)" by (simp add: power_add)
  also have "\<dots> \<le> 2 ^ (l + j)" using assms(3) by (rule power_increasing) simp
  also have "\<dots> = 2 ^ l * 2 ^ j" by (simp add: power_add)
  also have "\<dots> \<le> 2 ^ l * b" using assms(2) by (rule mult_le_mono2)
  finally show ?thesis .
qed

lemma pow2_prod:
  fixes a b :: nat
  assumes "a \<le> 2 ^ i" "b \<le> 2 ^ j" "i + j \<le> l + k"
  shows "a * b \<le> 2 ^ l * 2 ^ k"
proof -
  have "a * b \<le> 2 ^ i * 2 ^ j" using assms(1,2) by (rule mult_le_mono)
  also have "\<dots> = 2 ^ (i + j)" by (simp add: power_add)
  also have "\<dots> \<le> 2 ^ (l + k)" using assms(3) by (rule power_increasing) simp
  also have "\<dots> = 2 ^ l * 2 ^ k" by (simp add: power_add)
  finally show ?thesis .
qed

lemma fin_consts:
  "isfinite 0" "isfinite 0x00800000" "isfinite 0x01000000" "isfinite 0x3F000000"
  "isfinite 0x3F800000" "isfinite 0x40000000" "isfinite 0x7E000000" "isfinite 0x7E800000"
  by (simp_all add: isfinite_def is_fin_def mag_of_def inf_mag_def binary32_def)

lemma mag_consts:
  "magnitude 0 = 0" "magnitude 0x00800000 = 2 ^ 23" "magnitude 0x01000000 = 2 ^ 24"
  "magnitude 0x3F000000 = 2 ^ 148" "magnitude 0x3F800000 = 2 ^ 149"
  "magnitude 0x40000000 = 2 ^ 150" "magnitude 0x7E000000 = 2 ^ 274"
  "magnitude 0x7E800000 = 2 ^ 275"
  by (simp_all add: magnitude_def mag_of_def sig_of_def binary32_def)

lemma quanta_consts:
  "quanta 0 = 0" "quanta 0x00800000 = 2 ^ 23" "quanta 0x3F800000 = 2 ^ 149"
  "\<not> signbit 0x40000000"
  by (simp_all add: quanta_def signed_sig_def signbit_def sign_of_def mag_of_def sig_of_def
      binary32_def)

lemma not_fless_finite:
  assumes "isfinite x" "isfinite y"
  shows "(\<not> fless x y) = (quanta y \<le> quanta x)"
  using finite_not_special [OF assms(1)] finite_not_special [OF assms(2)]
  by (simp add: fless_def gless_def quanta_def not_less)

lemma quanta_bounds:
  "0 \<le> quanta x \<Longrightarrow> quanta x \<le> 2 ^ k \<Longrightarrow> magnitude x \<le> 2 ^ k"
  "- (2 ^ k) \<le> quanta x \<Longrightarrow> quanta x \<le> 2 ^ k \<Longrightarrow> magnitude x \<le> 2 ^ k"
  "2 ^ k \<le> quanta x \<Longrightarrow> 2 ^ k \<le> magnitude x \<and> \<not> signbit x"
  "0 \<le> quanta x \<Longrightarrow> signbit x \<Longrightarrow> magnitude x = 0"
proof -
  have i: "(int m \<le> 2 ^ k) = (m \<le> 2 ^ k)" "((2::int) ^ k \<le> int m) = (2 ^ k \<le> m)" for m
    using of_nat_le_iff [of m "2 ^ k", where 'a = int] of_nat_le_iff [of "2 ^ k" m, where 'a = int]
    by simp_all
  have p: "\<not> (2::int) ^ k \<le> - int m" for m
  proof -
    have "- int m \<le> 0" "(0::int) < 2 ^ k" by simp_all
    then show ?thesis by linarith
  qed
  show "0 \<le> quanta x \<Longrightarrow> quanta x \<le> 2 ^ k \<Longrightarrow> magnitude x \<le> 2 ^ k"
    by (auto simp: quanta_cases i split: if_splits)
  show "- (2 ^ k) \<le> quanta x \<Longrightarrow> quanta x \<le> 2 ^ k \<Longrightarrow> magnitude x \<le> 2 ^ k"
    by (auto simp: quanta_cases i split: if_splits)
  show "2 ^ k \<le> quanta x \<Longrightarrow> 2 ^ k \<le> magnitude x \<and> \<not> signbit x"
    using p by (auto simp: quanta_cases i split: if_splits)
  show "0 \<le> quanta x \<Longrightarrow> signbit x \<Longrightarrow> magnitude x = 0"
    by (auto simp: quanta_cases split: if_splits)
qed

lemma LowPass_from_finite:
  assumes s: "isfinite s" "\<not> fless s 0" "\<not> fless 0x3F800000 s"
    and c: "isfinite c" "\<not> fless c (fneg 0x3F800000)" "\<not> fless 0x3F800000 c"
    and q: "isfinite q" "\<not> fless q 0x00800000"
  shows "isfinite (b0 (LowPass_from s c q))" "isfinite (b1 (LowPass_from s c q))"
    "isfinite (b2 (LowPass_from s c q))" "isfinite (a1 (LowPass_from s c q))"
    "isfinite (a2 (LowPass_from s c q))"
proof -
  note Q = binary32_consts(5)
  have qs: "0 \<le> quanta s" "quanta s \<le> 2 ^ 149"
    using s by (simp_all only: not_fless_finite fin_consts quanta_consts)
  have qc: "- (2 ^ 149) \<le> quanta c" "quanta c \<le> 2 ^ 149"
    using c by (simp_all only: not_fless_finite fin_consts quanta_consts fneg_parts)
  have qq: "2 ^ 23 \<le> quanta q"
    using q by (simp only: not_fless_finite fin_consts quanta_consts)
  have ms: "magnitude s \<le> 2 ^ 149" using qs by (rule quanta_bounds(1))
  have mc: "magnitude c \<le> 2 ^ 149" using qc by (rule quanta_bounds(2))
  have mq: "2 ^ 23 \<le> magnitude q" "\<not> signbit q"
    using quanta_bounds(3) [OF qq] by simp_all

  define tq where "tq = fmul 0x40000000 q"
  have "magnitude 0x01000000 * 2 ^ quantum_exp binary32 \<le> magnitude 0x40000000 * magnitude q"
    unfolding mag_consts Q by (rule pow2_scale [where i = 24, OF _ mq(1)]) simp_all
  note fmul_lower [OF fin_consts(6) q(1) fin_consts(3) this]
  then have tq: "2 ^ 24 \<le> magnitude tq" "\<not> isnan tq" "\<not> signbit tq"
    using mq(2) by (simp_all add: tq_def mag_consts quanta_consts del: power_numeral)

  define alpha where "alpha = fdiv s tq"
  have alpha: "isfinite alpha \<and> magnitude alpha \<le> 2 ^ 274 \<and> (signbit s \<longrightarrow> magnitude alpha = 0)"
  proof (cases "isfinite tq")
    case True
    have pos: "0 < magnitude tq"
    proof -
      have "(0::nat) < 2 ^ 24" by simp
      also note tq(1)
      finally show ?thesis .
    qed
    have "magnitude s * 2 ^ quantum_exp binary32 \<le> magnitude 0x7E000000 * magnitude tq"
      unfolding mag_consts Q by (rule pow2_scale [OF ms tq(1)]) simp
    note a = fdiv_bounded [OF s(1) True pos fin_consts(7) this]
    have z: "magnitude alpha = 0" if "signbit s"
    proof -
      have "magnitude s = 0" using qs(1) that by (rule quanta_bounds(4))
      then have "magnitude s * 2 ^ quantum_exp binary32 \<le> magnitude 0 * magnitude tq"
        by simp
      from fdiv_bounded(2) [OF s(1) True pos fin_consts(1) this]
      show ?thesis by (simp add: alpha_def mag_consts)
    qed
    from a(1,2) z show ?thesis by (simp add: alpha_def mag_consts del: power_numeral)
  next
    case False
    have "alpha = of_nat (pack binary32 (signbit s \<noteq> signbit tq) 0)"
      unfolding alpha_def using s(1) False tq(2) by (rule fdiv_by_infinity)
    moreover have "(0::nat) \<le> inf_mag binary32" by simp
    ultimately have "isfinite alpha" "magnitude alpha = 0"
      by (simp_all add: float_of_pack sig_of_def binary32_widths(1))
    then show ?thesis by simp
  qed
  then have fa: "isfinite alpha" and ma: "magnitude alpha \<le> 2 ^ 274"
    and za: "signbit s \<Longrightarrow> magnitude alpha = 0" by simp_all
  have sa: "signbit alpha \<Longrightarrow> magnitude alpha = 0"
  proof (cases "isfinite tq")
    case True
    assume "signbit alpha"
    have pos: "0 < magnitude tq"
    proof -
      have "(0::nat) < 2 ^ 24" by simp
      also note tq(1)
      finally show ?thesis .
    qed
    have "magnitude s * 2 ^ quantum_exp binary32 \<le> magnitude 0x7E000000 * magnitude tq"
      unfolding mag_consts Q by (rule pow2_scale [OF ms tq(1)]) simp
    from fdiv_bounded(3) [OF s(1) True pos fin_consts(7) this] \<open>signbit alpha\<close> tq(3)
    have "signbit s" by (simp add: alpha_def)
    then show ?thesis by (rule za)
  next
    case False
    have "alpha = of_nat (pack binary32 (signbit s \<noteq> signbit tq) 0)"
      unfolding alpha_def using s(1) False tq(2) by (rule fdiv_by_infinity)
    then show ?thesis by (simp add: float_of_pack sig_of_def)
  qed
  have qa: "0 \<le> quanta alpha" "quanta alpha \<le> 2 ^ 274"
  proof -
    have "int (magnitude alpha) \<le> int (2 ^ 274)" using ma by (simp only: of_nat_le_iff)
    then have i: "int (magnitude alpha) \<le> 2 ^ 274" by simp
    show "0 \<le> quanta alpha" using sa by (auto simp: quanta_cases)
    show "quanta alpha \<le> 2 ^ 274" using i sa by (auto simp: quanta_cases)
  qed

  define a0_raw where "a0_raw = fadd 0x3F800000 alpha"
  have "\<bar>quanta 0x3F800000 + quanta alpha\<bar> \<le> int (magnitude 0x7E800000)"
    using qa by (simp add: quanta_consts mag_consts)
  note u = fadd_bounded [OF fin_consts(5) fa fin_consts(8) this]
  have "int (magnitude 0x3F800000) \<le> quanta 0x3F800000 + quanta alpha"
    using qa by (simp add: quanta_consts mag_consts)
  note l = fadd_lower [OF fin_consts(5) fa fin_consts(5) _ this]
  have a0: "isfinite a0_raw" "2 ^ 149 \<le> magnitude a0_raw" "0 < magnitude a0_raw"
  proof -
    show "isfinite a0_raw" using u(1) by (simp add: a0_raw_def)
    have "(0::nat) < magnitude 0x3F800000" by (simp add: mag_consts)
    from l(2) [OF this] show g: "2 ^ 149 \<le> magnitude a0_raw"
      by (simp add: a0_raw_def mag_consts del: power_numeral)
    have "(0::nat) < 2 ^ 149" by simp
    also note g
    finally show "0 < magnitude a0_raw" .
  qed

  define b1_raw where "b1_raw = fsub 0x3F800000 c"
  have "\<bar>quanta 0x3F800000 + quanta (fneg c)\<bar> \<le> int (magnitude 0x40000000)"
    using qc by (simp add: quanta_consts mag_consts fneg_parts)
  note fadd_bounded [OF fin_consts(5) _ fin_consts(6) this]
  then have b1r: "isfinite b1_raw" "magnitude b1_raw \<le> 2 ^ 150"
    using c(1) by (simp_all add: b1_raw_def fsub_eval fneg_parts mag_consts del: power_numeral)

  define b0_raw where "b0_raw = fmul b1_raw 0x3F000000"
  have "magnitude b1_raw * magnitude 0x3F000000 \<le> magnitude 0x3F800000 * 2 ^ quantum_exp binary32"
    unfolding mag_consts Q by (rule pow2_prod [where j = 148, OF b1r(2)]) simp_all
  note fmul_bounded [OF b1r(1) fin_consts(4) fin_consts(5) this]
  then have b0r: "isfinite b0_raw" "magnitude b0_raw \<le> 2 ^ 149"
    by (simp_all add: b0_raw_def mag_consts del: power_numeral)

  define a1_raw where "a1_raw = fmul (fneg 0x40000000) c"
  have "magnitude (fneg 0x40000000) * magnitude c \<le> magnitude 0x40000000 * 2 ^ quantum_exp binary32"
    unfolding fneg_parts mag_consts Q by (rule pow2_prod [where i = 150, OF _ mc]) simp_all
  note fmul_bounded [OF _ c(1) fin_consts(6) this]
  then have a1r: "isfinite a1_raw" "magnitude a1_raw \<le> 2 ^ 150"
    by (simp_all add: a1_raw_def fneg_parts fin_consts mag_consts del: power_numeral)

  define a2_raw where "a2_raw = fsub 0x3F800000 alpha"
  have "\<bar>quanta 0x3F800000 + quanta (fneg alpha)\<bar> \<le> int (magnitude 0x7E000000)"
    using qa by (simp add: quanta_consts mag_consts fneg_parts)
  note fadd_bounded [OF fin_consts(5) _ fin_consts(7) this]
  then have a2r: "isfinite a2_raw" "magnitude a2_raw \<le> 2 ^ 274"
    using fa by (simp_all add: a2_raw_def fsub_eval fneg_parts mag_consts del: power_numeral)

  have quot: "isfinite (fdiv x a0_raw)" if "isfinite x" "magnitude x \<le> 2 ^ k" "isfinite b"
    "magnitude b = 2 ^ k" for x b k
  proof -
    have "magnitude x * 2 ^ quantum_exp binary32 \<le> magnitude b * magnitude a0_raw"
      unfolding that(4) Q by (rule pow2_scale [OF that(2) a0(2)]) simp
    from fdiv_bounded(1) [OF that(1) a0(1) a0(3) that(3) this] show ?thesis .
  qed
  have F: "LowPass_from s c q =
    BiquadFilter_default
      \<lparr>b0 := fdiv b0_raw a0_raw, b1 := fdiv b1_raw a0_raw, b2 := fdiv b0_raw a0_raw,
       a1 := fdiv a1_raw a0_raw, a2 := fdiv a2_raw a0_raw\<rparr>"
    unfolding b0_raw_def b1_raw_def a0_raw_def a1_raw_def a2_raw_def alpha_def tq_def
      LowPass_from_def Let_def flit_one flit_two flit_half ..
  show "isfinite (b0 (LowPass_from s c q))"
    unfolding F using quot [OF b0r fin_consts(5) mag_consts(5)] by simp
  show "isfinite (b1 (LowPass_from s c q))"
    unfolding F using quot [OF b1r fin_consts(6) mag_consts(6)] by simp
  show "isfinite (b2 (LowPass_from s c q))"
    unfolding F using quot [OF b0r fin_consts(5) mag_consts(5)] by simp
  show "isfinite (a1 (LowPass_from s c q))"
    unfolding F using quot [OF a1r fin_consts(6) mag_consts(6)] by simp
  show "isfinite (a2 (LowPass_from s c q))"
    unfolding F using quot [OF a2r fin_consts(7) mag_consts(7)] by simp
qed

lemma smallest_normal: "flit 1 (2 ^ 126) = 0x00800000"
  by (simp only: eval_float eval_arith cong: if_weak_cong)

lemma minus_one: "fneg 0x3F800000 = 0xBF800000"
  by (simp only: eval_float eval_arith cong: if_weak_cong)


section \<open>The filter of the tests\<close>

text \<open>
  The three tests build their filter with \<open>MakeLowPass(12.0f, 200.0f, 0.707f)\<close>. There
  \<open>omega\<close> is the value with bit pattern \<open>0x3EC104FB\<close> (\<open>omega_test\<close>), about
  \<open>0.37699112\<close>, and the filter depends on the C library only through \<open>sinf\<close> and
  \<open>cosf\<close> at this one argument. The single-precision values nearest to the sine and
  the cosine of that number are \<open>0x3EBC7AD2\<close> (about \<open>0.36812454\<close>) and \<open>0x3F6E05D5\<close>
  (about \<open>0.92977649\<close>). The filter and the runs of the tests are evaluated for each of
  the nine pairs made of one of these values or a neighbour of it, one unit in the last
  place below or above.
\<close>

lemmas eval_run = feed_eval feed.simps(1) Update_eval Update_with_def eval_float eval_arith

lemma test_literals:
  "flit 12 1 = 0x41400000" "flit 200 1 = 0x43480000" "flit 707 1000 = 0x3F34FDF4"
  "flit 9 10 = 0x3F666666" "flit 11 10 = 0x3F8CCCCD" "flit 1 1000000 = 0x358637BD"
  "flit 1 100000 = 0x3727C5AC"
  by (simp_all only: eval_float eval_arith cong: if_weak_cong)

lemma M_PI_float: "static_cast_float M_PI = 0x40490FDB"
  by (simp only: M_PI_def dlit_def literal_eval eval_float eval_arith cong: if_weak_cong)

lemma omega_test:
  "fmul (fmul (flit 2 1) (static_cast_float M_PI)) (fdiv (flit 12 1) (flit 200 1)) = 0x3EC104FB"
  unfolding M_PI_float test_literals flit_two
  by (simp only: eval_float eval_arith cong: if_weak_cong)

lemma MakeLowPass_from:
  "MakeLowPass sinf cosf cutoffHz sampleRateHz q =
   LowPass_from
     (sinf (fmul (fmul (flit 2 1) (static_cast_float M_PI)) (fdiv cutoffHz sampleRateHz)))
     (cosf (fmul (fmul (flit 2 1) (static_cast_float M_PI)) (fdiv cutoffHz sampleRateHz))) q"
  by (simp add: MakeLowPass_def LowPass_from_def Let_def)

lemma test_filter_from:
  "test_filter sinf cosf = LowPass_from (sinf 0x3EC104FB) (cosf 0x3EC104FB) 0x3F34FDF4"
  unfolding test_filter_def MakeLowPass_from omega_test unfolding test_literals ..

lemmas LowPass_from_eval =
  LowPass_from_def [unfolded Let_def BiquadFilter_default_fields flit_one flit_two flit_half]

lemmas cmp_defs = fless_def gless_def fequal_def gequal_def fabs_def gabs_def isfinite_def isnan_def is_fin_def
  is_nan_def signed_sig_def sign_of_def mag_of_def sig_of_def inf_mag_def binary32_def


lemmas val_defs = float_value_def signed_sig_def sign_of_def mag_of_def sig_of_def quantum_exp_def binary32_def


lemma double_ops_eval:
  "dadd x y = of_nat (add_dec binary64 (sign_of binary64 (unat x)) (mag_of binary64 (unat x))
                        (sign_of binary64 (unat y)) (mag_of binary64 (unat y)))"
  "dmul x y = of_nat (mul_dec binary64 (sign_of binary64 (unat x)) (mag_of binary64 (unat x))
                        (sign_of binary64 (unat y)) (mag_of binary64 (unat y)))"
  "ddiv x y = of_nat (div_dec binary64 (sign_of binary64 (unat x)) (mag_of binary64 (unat x))
                        (sign_of binary64 (unat y)) (mag_of binary64 (unat y)))"
  "0 < d \<Longrightarrow> dlit n d = of_nat (round_shift binary64 n d (quantum_exp binary64))"
  "to_double z = of_nat (conv_dec binary32 binary64 (sign_of binary32 (unat z)) (mag_of binary32 (unat z)))"
  "dneg x = of_nat (pack binary64 (\<not> sign_of binary64 (unat x)) (mag_of binary64 (unat x)))"
  by (simp_all add: dadd_def dmul_def ddiv_def dlit_def to_double_def dneg_def gneg_def
      gadd_dec [OF unat_double_bound unat_double_bound] gmul_dec gdiv_dec literal_eval convert_dec)

lemma dsub_eval: "dsub x y = dadd x (dneg y)"
proof -
  have "gneg binary64 (unat y) < 2 ^ 64"
    using unsigned_less [of y, where 'a = nat]
    by (auto simp: gneg_def pack_def sign_of_def mag_of_def binary64_def mod_if not_le)
  then have "unat (of_nat (gneg binary64 (unat y)) :: double) = gneg binary64 (unat y)"
    by (simp add: unat_of_nat)
  then show ?thesis by (simp add: dsub_def gsub_def dadd_def dneg_def)
qed

lemmas eval_double = double_ops_eval dsub_eval

lemma M_PI_bits: "M_PI = 0x400921FB54442D18"
  by (simp only: M_PI_def eval_double eval_float eval_arith cong: if_weak_cong)

lemma omega_double:
  "dmul (dmul (dlit 2 1) M_PI) (ddiv (to_double (flit 12 1)) (to_double (flit 200 1))) =
   0x3FD8209F5B22BAA6"
  unfolding M_PI_bits test_literals
  by (simp only: eval_double eval_float eval_arith cong: if_weak_cong)

lemmas MakeLowPass_double_eval =
  MakeLowPass_double_def [unfolded Let_def BiquadFilter_default_fields]

lemma design_double:
  "MakeLowPass_double (\<lambda>_. 0x3FD78F5A48A8A918) (\<lambda>_. 0x3FEDC0BA9DEF5AE5)
     (flit 12 1) (flit 200 1) (flit 707 1000) =
   \<lparr>b0 = 0x3ce43858, b1 = 0x3d643858, b2 = 0x3ce43858, a1 = 0xbfbcdb09, a2 = 0x3f163d1d,
    z1 = 0, z2 = 0\<rparr>"
  unfolding MakeLowPass_double_eval test_literals
  by (simp only: eval_double eval_float eval_arith cong: if_weak_cong)

lemma design_candidates:
  "LowPass_from 0x3EBC7AD1 0x3F6E05D4 0x3F34FDF4 =
     \<lparr>b0 = 0x3CE43864, b1 = 0x3D643864, b2 = 0x3CE43864, a1 = 0xBFBCDB09, a2 = 0x3F163D1E, z1 = 0, z2 = 0\<rparr>"
  "LowPass_from 0x3EBC7AD1 0x3F6E05D5 0x3F34FDF4 =
     \<lparr>b0 = 0x3CE43858, b1 = 0x3D643858, b2 = 0x3CE43858, a1 = 0xBFBCDB0A, a2 = 0x3F163D1E, z1 = 0, z2 = 0\<rparr>"
  "LowPass_from 0x3EBC7AD1 0x3F6E05D6 0x3F34FDF4 =
     \<lparr>b0 = 0x3CE4384B, b1 = 0x3D64384B, b2 = 0x3CE4384B, a1 = 0xBFBCDB0B, a2 = 0x3F163D1E, z1 = 0, z2 = 0\<rparr>"
  "LowPass_from 0x3EBC7AD2 0x3F6E05D4 0x3F34FDF4 =
     \<lparr>b0 = 0x3CE43864, b1 = 0x3D643864, b2 = 0x3CE43864, a1 = 0xBFBCDB09, a2 = 0x3F163D1E, z1 = 0, z2 = 0\<rparr>"
  "LowPass_from 0x3EBC7AD2 0x3F6E05D5 0x3F34FDF4 =
     \<lparr>b0 = 0x3CE43858, b1 = 0x3D643858, b2 = 0x3CE43858, a1 = 0xBFBCDB0A, a2 = 0x3F163D1E, z1 = 0, z2 = 0\<rparr>"
  "LowPass_from 0x3EBC7AD2 0x3F6E05D6 0x3F34FDF4 =
     \<lparr>b0 = 0x3CE4384B, b1 = 0x3D64384B, b2 = 0x3CE4384B, a1 = 0xBFBCDB0B, a2 = 0x3F163D1E, z1 = 0, z2 = 0\<rparr>"
  "LowPass_from 0x3EBC7AD3 0x3F6E05D4 0x3F34FDF4 =
     \<lparr>b0 = 0x3CE43863, b1 = 0x3D643863, b2 = 0x3CE43863, a1 = 0xBFBCDB08, a2 = 0x3F163D1C, z1 = 0, z2 = 0\<rparr>"
  "LowPass_from 0x3EBC7AD3 0x3F6E05D5 0x3F34FDF4 =
     \<lparr>b0 = 0x3CE43856, b1 = 0x3D643856, b2 = 0x3CE43856, a1 = 0xBFBCDB09, a2 = 0x3F163D1C, z1 = 0, z2 = 0\<rparr>"
  "LowPass_from 0x3EBC7AD3 0x3F6E05D6 0x3F34FDF4 =
     \<lparr>b0 = 0x3CE4384A, b1 = 0x3D64384A, b2 = 0x3CE4384A, a1 = 0xBFBCDB09, a2 = 0x3F163D1C, z1 = 0, z2 = 0\<rparr>"
  by (simp_all only: LowPass_from_eval eval_float eval_arith cong: if_weak_cong)

text \<open>
  The six filters that these nine pairs give, after the 200 updates with \<open>1.0f\<close>, and
  after 50 more with \<open>0.0f\<close>.
\<close>

lemma step_runs:
  "feed 200 0x3F800000 (0, \<lparr>b0 = 0x3CE43864, b1 = 0x3D643864, b2 = 0x3CE43864, a1 = 0xBFBCDB09, a2 = 0x3F163D1E, z1 = 0, z2 = 0\<rparr>) =
     (0x3F7FFFFF, \<lparr>b0 = 0x3CE43864, b1 = 0x3D643864, b2 = 0x3CE43864, a1 = 0xBFBCDB09, a2 = 0x3F163D1E, z1 = 0x3F78DE3C, z2 = 0xBF0F1B5A\<rparr>)"
  "feed 200 0x3F800000 (0, \<lparr>b0 = 0x3CE43858, b1 = 0x3D643858, b2 = 0x3CE43858, a1 = 0xBFBCDB0A, a2 = 0x3F163D1E, z1 = 0, z2 = 0\<rparr>) =
     (0x3F800004, \<lparr>b0 = 0x3CE43858, b1 = 0x3D643858, b2 = 0x3CE43858, a1 = 0xBFBCDB0A, a2 = 0x3F163D1E, z1 = 0x3F78DE46, z2 = 0xBF0F1B60\<rparr>)"
  "feed 200 0x3F800000 (0, \<lparr>b0 = 0x3CE4384B, b1 = 0x3D64384B, b2 = 0x3CE4384B, a1 = 0xBFBCDB0B, a2 = 0x3F163D1E, z1 = 0, z2 = 0\<rparr>) =
     (0x3F800005, \<lparr>b0 = 0x3CE4384B, b1 = 0x3D64384B, b2 = 0x3CE4384B, a1 = 0xBFBCDB0B, a2 = 0x3F163D1E, z1 = 0x3F78DE47, z2 = 0xBF0F1B62\<rparr>)"
  "feed 200 0x3F800000 (0, \<lparr>b0 = 0x3CE43863, b1 = 0x3D643863, b2 = 0x3CE43863, a1 = 0xBFBCDB08, a2 = 0x3F163D1C, z1 = 0, z2 = 0\<rparr>) =
     (0x3F7FFFFF, \<lparr>b0 = 0x3CE43863, b1 = 0x3D643863, b2 = 0x3CE43863, a1 = 0xBFBCDB08, a2 = 0x3F163D1C, z1 = 0x3F78DE3C, z2 = 0xBF0F1B58\<rparr>)"
  "feed 200 0x3F800000 (0, \<lparr>b0 = 0x3CE43856, b1 = 0x3D643856, b2 = 0x3CE43856, a1 = 0xBFBCDB09, a2 = 0x3F163D1C, z1 = 0, z2 = 0\<rparr>) =
     (0x3F800000, \<lparr>b0 = 0x3CE43856, b1 = 0x3D643856, b2 = 0x3CE43856, a1 = 0xBFBCDB09, a2 = 0x3F163D1C, z1 = 0x3F78DE3E, z2 = 0xBF0F1B59\<rparr>)"
  "feed 200 0x3F800000 (0, \<lparr>b0 = 0x3CE4384A, b1 = 0x3D64384A, b2 = 0x3CE4384A, a1 = 0xBFBCDB09, a2 = 0x3F163D1C, z1 = 0, z2 = 0\<rparr>) =
     (0x3F7FFFF8, \<lparr>b0 = 0x3CE4384A, b1 = 0x3D64384A, b2 = 0x3CE4384A, a1 = 0xBFBCDB09, a2 = 0x3F163D1C, z1 = 0x3F78DE36, z2 = 0xBF0F1B55\<rparr>)"
  by (simp_all only: eval_run cong: if_weak_cong)

lemma decay_runs:
  "feed 50 0 (0x3F7FFFFF, \<lparr>b0 = 0x3CE43864, b1 = 0x3D643864, b2 = 0x3CE43864, a1 = 0xBFBCDB09, a2 = 0x3F163D1E, z1 = 0x3F78DE3C, z2 = 0xBF0F1B5A\<rparr>) =
     (0x362F8782, \<lparr>b0 = 0x3CE43864, b1 = 0x3D643864, b2 = 0x3CE43864, a1 = 0xBFBCDB09, a2 = 0x3F163D1E, z1 = 0x35F8C018, z2 = 0xB5CE069C\<rparr>)"
  "feed 50 0 (0x3F800004, \<lparr>b0 = 0x3CE43858, b1 = 0x3D643858, b2 = 0x3CE43858, a1 = 0xBFBCDB0A, a2 = 0x3F163D1E, z1 = 0x3F78DE46, z2 = 0xBF0F1B60\<rparr>) =
     (0x362F8798, \<lparr>b0 = 0x3CE43858, b1 = 0x3D643858, b2 = 0x3CE43858, a1 = 0xBFBCDB0A, a2 = 0x3F163D1E, z1 = 0x35F8C07A, z2 = 0xB5CE06B6\<rparr>)"
  "feed 50 0 (0x3F800005, \<lparr>b0 = 0x3CE4384B, b1 = 0x3D64384B, b2 = 0x3CE4384B, a1 = 0xBFBCDB0B, a2 = 0x3F163D1E, z1 = 0x3F78DE47, z2 = 0xBF0F1B62\<rparr>) =
     (0x362F87C3, \<lparr>b0 = 0x3CE4384B, b1 = 0x3D64384B, b2 = 0x3CE4384B, a1 = 0xBFBCDB0B, a2 = 0x3F163D1E, z1 = 0x35F8C104, z2 = 0xB5CE06E8\<rparr>)"
  "feed 50 0 (0x3F7FFFFF, \<lparr>b0 = 0x3CE43863, b1 = 0x3D643863, b2 = 0x3CE43863, a1 = 0xBFBCDB08, a2 = 0x3F163D1C, z1 = 0x3F78DE3C, z2 = 0xBF0F1B58\<rparr>) =
     (0x362F874B, \<lparr>b0 = 0x3CE43863, b1 = 0x3D643863, b2 = 0x3CE43863, a1 = 0xBFBCDB08, a2 = 0x3F163D1C, z1 = 0x35F8BFD6, z2 = 0xB5CE0659\<rparr>)"
  "feed 50 0 (0x3F800000, \<lparr>b0 = 0x3CE43856, b1 = 0x3D643856, b2 = 0x3CE43856, a1 = 0xBFBCDB09, a2 = 0x3F163D1C, z1 = 0x3F78DE3E, z2 = 0xBF0F1B59\<rparr>) =
     (0x362F8768, \<lparr>b0 = 0x3CE43856, b1 = 0x3D643856, b2 = 0x3CE43856, a1 = 0xBFBCDB09, a2 = 0x3F163D1C, z1 = 0x35F8C042, z2 = 0xB5CE067B\<rparr>)"
  "feed 50 0 (0x3F7FFFF8, \<lparr>b0 = 0x3CE4384A, b1 = 0x3D64384A, b2 = 0x3CE4384A, a1 = 0xBFBCDB09, a2 = 0x3F163D1C, z1 = 0x3F78DE36, z2 = 0xBF0F1B55\<rparr>) =
     (0x362F8766, \<lparr>b0 = 0x3CE4384A, b1 = 0x3D64384A, b2 = 0x3CE4384A, a1 = 0xBFBCDB09, a2 = 0x3F163D1C, z1 = 0x35F8C048, z2 = 0xB5CE0678\<rparr>)"
  by (simp_all only: eval_run cong: if_weak_cong)

text \<open>With zero delay registers, an update with \<open>0.0f\<close> returns \<open>0.0f\<close> and changes nothing.\<close>

lemma zero_steps:
  "Update \<lparr>b0 = 0x3CE43864, b1 = 0x3D643864, b2 = 0x3CE43864, a1 = 0xBFBCDB09, a2 = 0x3F163D1E, z1 = 0, z2 = 0\<rparr> 0 =
     (0, \<lparr>b0 = 0x3CE43864, b1 = 0x3D643864, b2 = 0x3CE43864, a1 = 0xBFBCDB09, a2 = 0x3F163D1E, z1 = 0, z2 = 0\<rparr>)"
  "Update \<lparr>b0 = 0x3CE43858, b1 = 0x3D643858, b2 = 0x3CE43858, a1 = 0xBFBCDB0A, a2 = 0x3F163D1E, z1 = 0, z2 = 0\<rparr> 0 =
     (0, \<lparr>b0 = 0x3CE43858, b1 = 0x3D643858, b2 = 0x3CE43858, a1 = 0xBFBCDB0A, a2 = 0x3F163D1E, z1 = 0, z2 = 0\<rparr>)"
  "Update \<lparr>b0 = 0x3CE4384B, b1 = 0x3D64384B, b2 = 0x3CE4384B, a1 = 0xBFBCDB0B, a2 = 0x3F163D1E, z1 = 0, z2 = 0\<rparr> 0 =
     (0, \<lparr>b0 = 0x3CE4384B, b1 = 0x3D64384B, b2 = 0x3CE4384B, a1 = 0xBFBCDB0B, a2 = 0x3F163D1E, z1 = 0, z2 = 0\<rparr>)"
  "Update \<lparr>b0 = 0x3CE43863, b1 = 0x3D643863, b2 = 0x3CE43863, a1 = 0xBFBCDB08, a2 = 0x3F163D1C, z1 = 0, z2 = 0\<rparr> 0 =
     (0, \<lparr>b0 = 0x3CE43863, b1 = 0x3D643863, b2 = 0x3CE43863, a1 = 0xBFBCDB08, a2 = 0x3F163D1C, z1 = 0, z2 = 0\<rparr>)"
  "Update \<lparr>b0 = 0x3CE43856, b1 = 0x3D643856, b2 = 0x3CE43856, a1 = 0xBFBCDB09, a2 = 0x3F163D1C, z1 = 0, z2 = 0\<rparr> 0 =
     (0, \<lparr>b0 = 0x3CE43856, b1 = 0x3D643856, b2 = 0x3CE43856, a1 = 0xBFBCDB09, a2 = 0x3F163D1C, z1 = 0, z2 = 0\<rparr>)"
  "Update \<lparr>b0 = 0x3CE4384A, b1 = 0x3D64384A, b2 = 0x3CE4384A, a1 = 0xBFBCDB09, a2 = 0x3F163D1C, z1 = 0, z2 = 0\<rparr> 0 =
     (0, \<lparr>b0 = 0x3CE4384A, b1 = 0x3D64384A, b2 = 0x3CE4384A, a1 = 0xBFBCDB09, a2 = 0x3F163D1C, z1 = 0, z2 = 0\<rparr>)"
  by (simp_all only: eval_run cong: if_weak_cong)

lemma feed_fixed: "Update f x = (y, f) \<Longrightarrow> feed n x (y, f) = (y, f)"
  by (induction n) simp_all

lemma step_outputs:
  "isfinite 0x3F7FFFFF" "9 / 10 < float_value 0x3F7FFFFF" "float_value 0x3F7FFFFF < 11 / 10"
  "fless 0x3F666666 0x3F7FFFFF" "fless 0x3F7FFFFF 0x3F8CCCCD"
  "isfinite 0x3F800004" "9 / 10 < float_value 0x3F800004" "float_value 0x3F800004 < 11 / 10"
  "fless 0x3F666666 0x3F800004" "fless 0x3F800004 0x3F8CCCCD"
  "isfinite 0x3F800005" "9 / 10 < float_value 0x3F800005" "float_value 0x3F800005 < 11 / 10"
  "fless 0x3F666666 0x3F800005" "fless 0x3F800005 0x3F8CCCCD"
  "isfinite 0x3F800000" "9 / 10 < float_value 0x3F800000" "float_value 0x3F800000 < 11 / 10"
  "fless 0x3F666666 0x3F800000" "fless 0x3F800000 0x3F8CCCCD"
  "isfinite 0x3F7FFFF8" "9 / 10 < float_value 0x3F7FFFF8" "float_value 0x3F7FFFF8 < 11 / 10"
  "fless 0x3F666666 0x3F7FFFF8" "fless 0x3F7FFFF8 0x3F8CCCCD"
  by (simp_all add: cmp_defs val_defs)

lemma decay_outputs:
  "1 / 1000000 < \<bar>float_value 0x362F8782\<bar>" "\<bar>float_value 0x362F8782\<bar> < 1 / 100000"
  "\<not> fless (fabs 0x362F8782) 0x358637BD"
  "1 / 1000000 < \<bar>float_value 0x362F8798\<bar>" "\<bar>float_value 0x362F8798\<bar> < 1 / 100000"
  "\<not> fless (fabs 0x362F8798) 0x358637BD"
  "1 / 1000000 < \<bar>float_value 0x362F87C3\<bar>" "\<bar>float_value 0x362F87C3\<bar> < 1 / 100000"
  "\<not> fless (fabs 0x362F87C3) 0x358637BD"
  "1 / 1000000 < \<bar>float_value 0x362F874B\<bar>" "\<bar>float_value 0x362F874B\<bar> < 1 / 100000"
  "\<not> fless (fabs 0x362F874B) 0x358637BD"
  "1 / 1000000 < \<bar>float_value 0x362F8768\<bar>" "\<bar>float_value 0x362F8768\<bar> < 1 / 100000"
  "\<not> fless (fabs 0x362F8768) 0x358637BD"
  "1 / 1000000 < \<bar>float_value 0x362F8766\<bar>" "\<bar>float_value 0x362F8766\<bar> < 1 / 100000"
  "\<not> fless (fabs 0x362F8766) 0x358637BD"
  by (simp_all add: cmp_defs val_defs)

lemma zero_output: "fless (fabs 0) 0x358637BD" "float_value 0 = 0"
  by (simp_all add: cmp_defs val_defs)

lemma TestStepResponse_loop_from:
  "TestStepResponse_loop sinf cosf =
   feed 200 0x3F800000 (0, LowPass_from (sinf 0x3EC104FB) (cosf 0x3EC104FB) 0x3F34FDF4)"
  unfolding TestStepResponse_loop_def test_filter_from flit_one flit_zero ..

lemma TestZeroInput_loop_from:
  "TestZeroInput_loop sinf cosf =
   feed 50 0 (0, LowPass_from (sinf 0x3EC104FB) (cosf 0x3EC104FB) 0x3F34FDF4)"
  unfolding TestZeroInput_loop_def test_filter_from flit_zero ..

lemma zero_input_after_step_from:
  "zero_input_after_step sinf cosf =
   feed 50 0 (feed 200 0x3F800000
     (0, LowPass_from (sinf 0x3EC104FB) (cosf 0x3EC104FB) 0x3F34FDF4))"
  unfolding zero_input_after_step_def TestStepResponse_loop_from flit_zero ..

lemmas zero_runs = zero_steps [THEN feed_fixed, of 50]


lemma tiny_q: "flit 1 (10 ^ 40) = 0x116C2"
  by (simp only: eval_float eval_arith cong: if_weak_cong)

lemma design_tiny_q:
  "LowPass_from 0x3EBC7AD2 0x3F6E05D5 0x116C2 =
     \<lparr>b0 = 0, b1 = 0, b2 = 0, a1 = 0x80000000, a2 = 0x7FC00000, z1 = 0, z2 = 0\<rparr>"
  by (simp only: LowPass_from_eval eval_float eval_arith cong: if_weak_cong)

lemma tiny_q_in_range:
  "isfinite 0x116C2" "fless 0 0x116C2" "isfinite 0x41400000" "isfinite 0x43480000"
  "fless 0 0x41400000" "fless 0 0x43480000" "fless 0x41400000 (fdiv 0x43480000 0x40000000)"
  "isnan 0x7FC00000" "\<not> isfinite 0x7FC00000"
proof -
  have "fdiv 0x43480000 0x40000000 = 0x42C80000"
    by (simp only: eval_float eval_arith cong: if_weak_cong)
  then show "fless 0x41400000 (fdiv 0x43480000 0x40000000)" by (simp add: cmp_defs)
qed (simp_all add: cmp_defs)

lemma nearest_funs:
  "sinf_nearest = (\<lambda>_. 0x3EBC7AD2)" "cosf_nearest = (\<lambda>_. 0x3F6E05D5)"
  "sin_nearest = (\<lambda>_. 0x3FD78F5A48A8A918)" "cos_nearest = (\<lambda>_. 0x3FEDC0BA9DEF5AE5)"
  by (simp_all add: fun_eq_iff sinf_nearest_def cosf_nearest_def sin_nearest_def cos_nearest_def)


section \<open>The sine and the cosine at the argument of the tests\<close>

text \<open>
  The values that \<open>sinf_nearest\<close>, \<open>cosf_nearest\<close>, \<open>sin_nearest\<close> and \<open>cos_nearest\<close> return
  are within half a unit in the last place of the sine and the cosine, by the Maclaurin
  polynomials of degree 17 and their remainder. Hence a \<open>sinf\<close> or \<open>cosf\<close> that is
  accurate to within one unit in the last place (\<open>2 ^ -25\<close> for a sine between \<open>1/4\<close> and
  \<open>1/2\<close>, \<open>2 ^ -24\<close> for a cosine between \<open>1/2\<close> and \<open>1\<close>) returns the nearest value or
  one of its two neighbours; likewise in \<open>double\<close>.
\<close>

lemma Maclaurin_cos_bound:
  fixes x :: real
  shows "\<bar>cos x - (\<Sum>m<n. cos_coeff m * x ^ m)\<bar> \<le> inverse (fact n) * \<bar>x\<bar> ^ n"
proof -
  from Maclaurin_cos_expansion [of x n]
  obtain t where "\<bar>t\<bar> \<le> \<bar>x\<bar>"
    and t: "cos x = (\<Sum>m<n. cos_coeff m * x ^ m) + (cos (t + 1/2 * real n * pi) / fact n) * x ^ n"
    by (elim exE conjE)
  have "\<bar>cos x - (\<Sum>m<n. cos_coeff m * x ^ m)\<bar> = \<bar>cos (t + 1/2 * real n * pi)\<bar> * (inverse (fact n) * \<bar>x\<bar> ^ n)"
    unfolding t by (simp add: abs_mult power_abs inverse_eq_divide)
  also have "\<dots> \<le> 1 * (inverse (fact n) * \<bar>x\<bar> ^ n)"
    by (rule mult_right_mono) simp_all
  finally show ?thesis by simp
qed

lemma sin_coeffs:
  "sin_coeff 0 = 0" "sin_coeff (Suc 0) = 1" "sin_coeff 2 = 0" "sin_coeff 3 = - 1 / 6"
  "sin_coeff 4 = 0" "sin_coeff 5 = 1 / 120" "sin_coeff 6 = 0" "sin_coeff 7 = - 1 / 5040"
  "sin_coeff 8 = 0" "sin_coeff 9 = 1 / 362880" "sin_coeff 10 = 0"
  "sin_coeff 11 = - 1 / 39916800" "sin_coeff 12 = 0" "sin_coeff 13 = 1 / 6227020800"
  "sin_coeff 14 = 0" "sin_coeff 15 = - 1 / 1307674368000" "sin_coeff 16 = 0"
  "sin_coeff 17 = 1 / 355687428096000"
  by (simp_all add: sin_coeff_def fact_numeral)

lemma cos_coeffs:
  "cos_coeff 0 = 1" "cos_coeff (Suc 0) = 0" "cos_coeff 2 = - 1 / 2" "cos_coeff 3 = 0"
  "cos_coeff 4 = 1 / 24" "cos_coeff 5 = 0" "cos_coeff 6 = - 1 / 720" "cos_coeff 7 = 0"
  "cos_coeff 8 = 1 / 40320" "cos_coeff 9 = 0" "cos_coeff 10 = - 1 / 3628800"
  "cos_coeff 11 = 0" "cos_coeff 12 = 1 / 479001600" "cos_coeff 13 = 0"
  "cos_coeff 14 = - 1 / 87178291200" "cos_coeff 15 = 0" "cos_coeff 16 = 1 / 20922789888000"
  "cos_coeff 17 = 0"
  by (simp_all add: cos_coeff_def fact_numeral)

lemma sin_poly:
  fixes x :: real
  shows "(\<Sum>m<18. sin_coeff m * x ^ m) =
     x - x ^ 3 / 6 + x ^ 5 / 120 - x ^ 7 / 5040 + x ^ 9 / 362880 - x ^ 11 / 39916800
       + x ^ 13 / 6227020800 - x ^ 15 / 1307674368000 + x ^ 17 / 355687428096000"
  by (simp add: lessThan_nat_numeral sin_coeffs)

lemma cos_poly:
  fixes x :: real
  shows "(\<Sum>m<18. cos_coeff m * x ^ m) =
     1 - x ^ 2 / 2 + x ^ 4 / 24 - x ^ 6 / 720 + x ^ 8 / 40320 - x ^ 10 / 3628800
       + x ^ 12 / 479001600 - x ^ 14 / 87178291200 + x ^ 16 / 20922789888000"
  by (simp add: lessThan_nat_numeral cos_coeffs)

lemma sin_within:
  fixes x :: real
  assumes "\<bar>(x - x ^ 3 / 6 + x ^ 5 / 120 - x ^ 7 / 5040 + x ^ 9 / 362880 - x ^ 11 / 39916800
       + x ^ 13 / 6227020800 - x ^ 15 / 1307674368000 + x ^ 17 / 355687428096000) - v\<bar>
       + inverse (fact 18) * \<bar>x\<bar> ^ 18 < e"
  shows "\<bar>v - sin x\<bar> < e"
  using Maclaurin_sin_bound [of x 18] assms unfolding sin_poly by linarith

lemma cos_within:
  fixes x :: real
  assumes "\<bar>(1 - x ^ 2 / 2 + x ^ 4 / 24 - x ^ 6 / 720 + x ^ 8 / 40320 - x ^ 10 / 3628800
       + x ^ 12 / 479001600 - x ^ 14 / 87178291200 + x ^ 16 / 20922789888000) - v\<bar>
       + inverse (fact 18) * \<bar>x\<bar> ^ 18 < e"
  shows "\<bar>v - cos x\<bar> < e"
  using Maclaurin_cos_bound [of x 18] assms unfolding cos_poly by linarith

lemma float_values:
  "float_value 0x3EC104FB = 12649723 / 2 ^ 25"
  "float_value 0x3EBC7AD1 = 12352209 / 2 ^ 25" "float_value 0x3EBC7AD2 = 12352210 / 2 ^ 25"
  "float_value 0x3EBC7AD3 = 12352211 / 2 ^ 25"
  "float_value 0x3F6E05D4 = 15599060 / 2 ^ 24" "float_value 0x3F6E05D5 = 15599061 / 2 ^ 24"
  "float_value 0x3F6E05D6 = 15599062 / 2 ^ 24"
  by (simp_all add: val_defs)

lemma sinf_nearest_correct:
  "\<bar>float_value (sinf_nearest 0x3EC104FB) - sin (float_value 0x3EC104FB)\<bar> < 1 / 2 ^ 26"
  unfolding sinf_nearest_def float_values
  by (rule sin_within) (simp add: fact_numeral power_divide)

lemma cosf_nearest_correct:
  "\<bar>float_value (cosf_nearest 0x3EC104FB) - cos (float_value 0x3EC104FB)\<bar> < 1 / 2 ^ 25"
  unfolding cosf_nearest_def float_values
  by (rule cos_within) (simp add: fact_numeral power_divide)

lemmas double_val_defs = double_value_def signed_sig_def sign_of_def mag_of_def sig_of_def quantum_exp_def binary64_def

lemma double_values:
  "double_value 0x3FD8209F5B22BAA6 = 6791268241947302 / 2 ^ 54"
  "double_value 0x3FD78F5A48A8A918 = 6631542393186584 / 2 ^ 54"
  "double_value 0x3FEDC0BA9DEF5AE5 = 8374682070768357 / 2 ^ 53"
  by (simp_all add: double_val_defs)

lemma sin_nearest_correct:
  "\<bar>double_value (sin_nearest 0x3FD8209F5B22BAA6) - sin (double_value 0x3FD8209F5B22BAA6)\<bar>
     < 1 / 2 ^ 55"
  unfolding sin_nearest_def double_values
  by (rule sin_within) (simp add: fact_numeral power_divide)

lemma cos_nearest_correct:
  "\<bar>double_value (cos_nearest 0x3FD8209F5B22BAA6) - cos (double_value 0x3FD8209F5B22BAA6)\<bar>
     < 1 / 2 ^ 54"
  unfolding cos_nearest_def double_values
  by (rule cos_within) (simp add: fact_numeral power_divide)

lemma code_between:
  assumes lo: "int (sig_of F a) < signed_sig F x" and hi: "signed_sig F x < int (sig_of F b)"
  shows "a < x" and "x < b"
proof -
  have "0 \<le> int (sig_of F a)" by simp
  with lo have pos: "0 < signed_sig F x" by linarith
  then have ns: "\<not> sign_of F x" by (auto simp: signed_sig_def split: if_splits)
  then have "mag_of F x = x" by (simp add: sign_of_def mag_of_def not_le)
  with ns have s: "signed_sig F x = int (sig_of F x)" by (simp add: signed_sig_def)
  show "a < x"
  proof (rule ccontr)
    assume "\<not> a < x"
    then have "x \<le> a" by simp
    from sig_of_mono [OF this, of F] lo s show False by simp
  qed
  show "x < b"
  proof (rule ccontr)
    assume "\<not> x < b"
    then have "b \<le> x" by simp
    from sig_of_mono [OF this, of F] hi s show False by simp
  qed
qed

lemma sinf_within_ulp:
  assumes "\<bar>float_value y - sin (float_value 0x3EC104FB)\<bar> < 1 / 2 ^ 25"
  shows "y \<in> {0x3EBC7AD1, 0x3EBC7AD2, 0x3EBC7AD3}"
proof -
  define S where "S = sin (float_value 0x3EC104FB)"
  have n: "\<bar>12352210 / 2 ^ 25 - S\<bar> < 1 / 2 ^ 26"
    using sinf_nearest_correct unfolding sinf_nearest_def float_values S_def .
  have fv: "float_value y = real_of_int (signed_sig binary32 (unat y)) / 2 ^ 149"
    by (simp add: float_value_def binary32_consts)
  have "12352210 / 2 ^ 25 - 3 / 2 ^ 26 < float_value y"
    "float_value y < 12352210 / 2 ^ 25 + 3 / 2 ^ 26"
    using assms n unfolding abs_less_iff S_def [symmetric] by simp_all
  then have "12352208 * 2 ^ 124 < real_of_int (signed_sig binary32 (unat y))"
    "real_of_int (signed_sig binary32 (unat y)) < 12352212 * 2 ^ 124"
    unfolding fv by (simp_all add: field_simps)
  then have "real_of_int (int (sig_of binary32 0x3EBC7AD0)) < real_of_int (signed_sig binary32 (unat y))"
    "real_of_int (signed_sig binary32 (unat y)) < real_of_int (int (sig_of binary32 0x3EBC7AD4))"
    by (simp_all add: sig_of_def binary32_def)
  then have "int (sig_of binary32 0x3EBC7AD0) < signed_sig binary32 (unat y)"
    "signed_sig binary32 (unat y) < int (sig_of binary32 0x3EBC7AD4)"
    by (simp_all only: of_int_less_iff)
  then have "0x3EBC7AD0 < unat y" "unat y < 0x3EBC7AD4" by (rule code_between)+
  then have "unat y = 0x3EBC7AD1 \<or> unat y = 0x3EBC7AD2 \<or> unat y = 0x3EBC7AD3" by linarith
  then show ?thesis by (auto simp: word_unat_eq_iff)
qed

lemma cosf_within_ulp:
  assumes "\<bar>float_value y - cos (float_value 0x3EC104FB)\<bar> < 1 / 2 ^ 24"
  shows "y \<in> {0x3F6E05D4, 0x3F6E05D5, 0x3F6E05D6}"
proof -
  define S where "S = cos (float_value 0x3EC104FB)"
  have n: "\<bar>15599061 / 2 ^ 24 - S\<bar> < 1 / 2 ^ 25"
    using cosf_nearest_correct unfolding cosf_nearest_def float_values S_def .
  have fv: "float_value y = real_of_int (signed_sig binary32 (unat y)) / 2 ^ 149"
    by (simp add: float_value_def binary32_consts)
  have "15599061 / 2 ^ 24 - 3 / 2 ^ 25 < float_value y"
    "float_value y < 15599061 / 2 ^ 24 + 3 / 2 ^ 25"
    using assms n unfolding abs_less_iff S_def [symmetric] by simp_all
  then have "15599059 * 2 ^ 125 < real_of_int (signed_sig binary32 (unat y))"
    "real_of_int (signed_sig binary32 (unat y)) < 15599063 * 2 ^ 125"
    unfolding fv by (simp_all add: field_simps)
  then have "real_of_int (int (sig_of binary32 0x3F6E05D3)) < real_of_int (signed_sig binary32 (unat y))"
    "real_of_int (signed_sig binary32 (unat y)) < real_of_int (int (sig_of binary32 0x3F6E05D7))"
    by (simp_all add: sig_of_def binary32_def)
  then have "int (sig_of binary32 0x3F6E05D3) < signed_sig binary32 (unat y)"
    "signed_sig binary32 (unat y) < int (sig_of binary32 0x3F6E05D7)"
    by (simp_all only: of_int_less_iff)
  then have "0x3F6E05D3 < unat y" "unat y < 0x3F6E05D7" by (rule code_between)+
  then have "unat y = 0x3F6E05D4 \<or> unat y = 0x3F6E05D5 \<or> unat y = 0x3F6E05D6" by linarith
  then show ?thesis by (auto simp: word_unat_eq_iff)
qed

lemma sin_within_ulp:
  assumes "\<bar>double_value y - sin (double_value 0x3FD8209F5B22BAA6)\<bar> < 1 / 2 ^ 54"
  shows "y \<in> {0x3FD78F5A48A8A917, 0x3FD78F5A48A8A918, 0x3FD78F5A48A8A919}"
proof -
  define S where "S = sin (double_value 0x3FD8209F5B22BAA6)"
  have n: "\<bar>6631542393186584 / 2 ^ 54 - S\<bar> < 1 / 2 ^ 55"
    using sin_nearest_correct unfolding sin_nearest_def double_values S_def .
  have fv: "double_value y = real_of_int (signed_sig binary64 (unat y)) / 2 ^ 1074"
    by (simp add: double_value_def binary64_consts)
  have "6631542393186584 / 2 ^ 54 - 3 / 2 ^ 55 < double_value y"
    "double_value y < 6631542393186584 / 2 ^ 54 + 3 / 2 ^ 55"
    using assms n unfolding abs_less_iff S_def [symmetric] by simp_all
  then have "6631542393186582 * 2 ^ 1020 < real_of_int (signed_sig binary64 (unat y))"
    "real_of_int (signed_sig binary64 (unat y)) < 6631542393186586 * 2 ^ 1020"
    unfolding fv by (simp_all add: field_simps)
  then have "real_of_int (int (sig_of binary64 0x3FD78F5A48A8A916)) < real_of_int (signed_sig binary64 (unat y))"
    "real_of_int (signed_sig binary64 (unat y)) < real_of_int (int (sig_of binary64 0x3FD78F5A48A8A91A))"
    by (simp_all add: sig_of_def binary64_def)
  then have "int (sig_of binary64 0x3FD78F5A48A8A916) < signed_sig binary64 (unat y)"
    "signed_sig binary64 (unat y) < int (sig_of binary64 0x3FD78F5A48A8A91A)"
    by (simp_all only: of_int_less_iff)
  then have "0x3FD78F5A48A8A916 < unat y" "unat y < 0x3FD78F5A48A8A91A" by (rule code_between)+
  then have "unat y = 0x3FD78F5A48A8A917 \<or> unat y = 0x3FD78F5A48A8A918 \<or> unat y = 0x3FD78F5A48A8A919"
    by linarith
  then show ?thesis by (auto simp: word_unat_eq_iff)
qed

lemma cos_within_ulp:
  assumes "\<bar>double_value y - cos (double_value 0x3FD8209F5B22BAA6)\<bar> < 1 / 2 ^ 53"
  shows "y \<in> {0x3FEDC0BA9DEF5AE4, 0x3FEDC0BA9DEF5AE5, 0x3FEDC0BA9DEF5AE6}"
proof -
  define S where "S = cos (double_value 0x3FD8209F5B22BAA6)"
  have n: "\<bar>8374682070768357 / 2 ^ 53 - S\<bar> < 1 / 2 ^ 54"
    using cos_nearest_correct unfolding cos_nearest_def double_values S_def .
  have fv: "double_value y = real_of_int (signed_sig binary64 (unat y)) / 2 ^ 1074"
    by (simp add: double_value_def binary64_consts)
  have "8374682070768357 / 2 ^ 53 - 3 / 2 ^ 54 < double_value y"
    "double_value y < 8374682070768357 / 2 ^ 53 + 3 / 2 ^ 54"
    using assms n unfolding abs_less_iff S_def [symmetric] by simp_all
  then have "8374682070768355 * 2 ^ 1021 < real_of_int (signed_sig binary64 (unat y))"
    "real_of_int (signed_sig binary64 (unat y)) < 8374682070768359 * 2 ^ 1021"
    unfolding fv by (simp_all add: field_simps)
  then have "real_of_int (int (sig_of binary64 0x3FEDC0BA9DEF5AE3)) < real_of_int (signed_sig binary64 (unat y))"
    "real_of_int (signed_sig binary64 (unat y)) < real_of_int (int (sig_of binary64 0x3FEDC0BA9DEF5AE7))"
    by (simp_all add: sig_of_def binary64_def)
  then have "int (sig_of binary64 0x3FEDC0BA9DEF5AE3) < signed_sig binary64 (unat y)"
    "signed_sig binary64 (unat y) < int (sig_of binary64 0x3FEDC0BA9DEF5AE7)"
    by (simp_all only: of_int_less_iff)
  then have "0x3FEDC0BA9DEF5AE3 < unat y" "unat y < 0x3FEDC0BA9DEF5AE7" by (rule code_between)+
  then have "unat y = 0x3FEDC0BA9DEF5AE4 \<or> unat y = 0x3FEDC0BA9DEF5AE5 \<or> unat y = 0x3FEDC0BA9DEF5AE6"
    by linarith
  then show ?thesis by (auto simp: word_unat_eq_iff)
qed

lemma omega_of_test: "omega_of (flit 12 1) (flit 200 1) = 0x3EC104FB"
  unfolding omega_of_def by (rule omega_test)

lemma nearest_within_ulp:
  "\<bar>float_value (sinf_nearest (omega_of (flit 12 1) (flit 200 1))) -
     sin (float_value (omega_of (flit 12 1) (flit 200 1)))\<bar> < 1 / 2 ^ 25"
  "\<bar>float_value (cosf_nearest (omega_of (flit 12 1) (flit 200 1))) -
     cos (float_value (omega_of (flit 12 1) (flit 200 1)))\<bar> < 1 / 2 ^ 24"
  using sinf_nearest_correct cosf_nearest_correct unfolding omega_of_test abs_less_iff
  by simp_all

lemma narrowed_pi: "to_double (static_cast_float M_PI) = 0x400921FB60000000"
  unfolding M_PI_float by (simp only: eval_double eval_float eval_arith cong: if_weak_cong)

lemma design_double_candidates:
  "sd \<in> {0x3FD78F5A48A8A917, 0x3FD78F5A48A8A918, 0x3FD78F5A48A8A919} \<Longrightarrow>
   cd \<in> {0x3FEDC0BA9DEF5AE4, 0x3FEDC0BA9DEF5AE5, 0x3FEDC0BA9DEF5AE6} \<Longrightarrow>
   a2 (MakeLowPass_double (\<lambda>_. sd) (\<lambda>_. cd) (flit 12 1) (flit 200 1) (flit 707 1000)) = 0x3F163D1D"
  unfolding MakeLowPass_double_eval test_literals
  by (elim insertE emptyE)
    (simp_all only: eval_double eval_float eval_arith cong: if_weak_cong)

lemma MakeLowPass_double_test:
  "MakeLowPass_double dsin dcos (flit 12 1) (flit 200 1) (flit 707 1000) =
   MakeLowPass_double (\<lambda>_. dsin 0x3FD8209F5B22BAA6) (\<lambda>_. dcos 0x3FD8209F5B22BAA6)
     (flit 12 1) (flit 200 1) (flit 707 1000)"
  unfolding MakeLowPass_double_def Let_def omega_double ..

text \<open>
  The derivation in \<open>double\<close> and the source disagree on \<open>a2\<close> of the filter of the tests
  whenever the four library functions are accurate to within one unit in the last place.
\<close>

lemma single_double_differ:
  assumes "\<bar>float_value (sinf (omega_of (flit 12 1) (flit 200 1))) -
            sin (float_value (omega_of (flit 12 1) (flit 200 1)))\<bar> < 1 / 2 ^ 25"
    and "\<bar>float_value (cosf (omega_of (flit 12 1) (flit 200 1))) -
            cos (float_value (omega_of (flit 12 1) (flit 200 1)))\<bar> < 1 / 2 ^ 24"
    and "\<bar>double_value (dsin 0x3FD8209F5B22BAA6) - sin (double_value 0x3FD8209F5B22BAA6)\<bar>
           < 1 / 2 ^ 54"
    and "\<bar>double_value (dcos 0x3FD8209F5B22BAA6) - cos (double_value 0x3FD8209F5B22BAA6)\<bar>
           < 1 / 2 ^ 53"
  shows "a2 (MakeLowPass sinf cosf (flit 12 1) (flit 200 1) (flit 707 1000)) \<noteq>
         a2 (MakeLowPass_double dsin dcos (flit 12 1) (flit 200 1) (flit 707 1000))"
proof -
  have s: "sinf 0x3EC104FB \<in> {0x3EBC7AD1, 0x3EBC7AD2, 0x3EBC7AD3}"
    using assms(1) unfolding omega_of_test by (rule sinf_within_ulp)
  have c: "cosf 0x3EC104FB \<in> {0x3F6E05D4, 0x3F6E05D5, 0x3F6E05D6}"
    using assms(2) unfolding omega_of_test by (rule cosf_within_ulp)
  have g: "a2 (MakeLowPass_double dsin dcos (flit 12 1) (flit 200 1) (flit 707 1000)) = 0x3F163D1D"
    by (subst MakeLowPass_double_test)
      (rule design_double_candidates [OF sin_within_ulp [OF assms(3)] cos_within_ulp [OF assms(4)]])
  have d: "a2 (LowPass_from x y 0x3F34FDF4) \<in> {0x3F163D1C, 0x3F163D1E}"
    if "x \<in> {0x3EBC7AD1, 0x3EBC7AD2, 0x3EBC7AD3}" "y \<in> {0x3F6E05D4, 0x3F6E05D5, 0x3F6E05D6}"
    for x y
    using that
    by (elim insertE emptyE)
      (simp_all only: design_candidates BiquadFilter.simps insert_iff simp_thms)
  from d [OF s c]
  have f: "a2 (MakeLowPass sinf cosf (flit 12 1) (flit 200 1) (flit 707 1000))
          \<in> {0x3F163D1C, 0x3F163D1E}"
    unfolding test_filter_from [unfolded test_filter_def] .
  have "(0x3F163D1C :: float) \<noteq> 0x3F163D1D" "(0x3F163D1E :: float) \<noteq> 0x3F163D1D"
    by simp_all
  with f show ?thesis unfolding g by auto
qed


section \<open>The recurrence and its frame\<close>

text \<open>
  C1. \<open>Update\<close> returns \<open>result = sample * b0 + z1\<close>; afterwards \<open>z1\<close> is
  \<open>sample * b1 + z2 - a1 * result\<close> and \<open>z2\<close> is \<open>sample * b2 - a2 * result\<close>, both from
  the \<open>z2\<close> of before the call and the returned result, and nothing else of the filter
  has changed.
\<close>

theorem Update_recurrence:
  "fst (Update f sample) = fadd (fmul sample (b0 f)) (z1 f) \<and>
   z1 (snd (Update f sample)) =
     fsub (fadd (fmul sample (b1 f)) (z2 f)) (fmul (a1 f) (fst (Update f sample))) \<and>
   z2 (snd (Update f sample)) =
     fsub (fmul sample (b2 f)) (fmul (a2 f) (fst (Update f sample))) \<and>
   snd (Update f sample) =
     f\<lparr>z1 := z1 (snd (Update f sample)), z2 := z2 (snd (Update f sample))\<rparr>"
  by (simp add: Update_def Let_def)

text \<open>
  C7. \<open>Reset\<close> sets \<open>z1\<close> and \<open>z2\<close> to \<open>0.0f\<close> (the all-zero bit pattern) whatever the
  filter held, leaves the five coefficients as they were, and a second \<open>Reset\<close> changes
  nothing more.
\<close>

theorem Reset_zeroes_delays:
  "z1 (Reset f) = 0 \<and> z2 (Reset f) = 0 \<and>
   b0 (Reset f) = b0 f \<and> b1 (Reset f) = b1 f \<and> b2 (Reset f) = b2 f \<and>
   a1 (Reset f) = a1 f \<and> a2 (Reset f) = a2 f \<and>
   Reset (Reset f) = Reset f"
  unfolding Reset_def flit_zero by simp

text \<open>
  C8. \<open>Update\<close> leaves the five coefficients \<open>b0\<close>, \<open>b1\<close>, \<open>b2\<close>, \<open>a1\<close>, \<open>a2\<close> as
  they were, and so does \<open>Reset\<close>: the two operations write the delay registers only.
\<close>

theorem coefficients_unchanged:
  "b0 (snd (Update f sample)) = b0 f \<and> b1 (snd (Update f sample)) = b1 f \<and>
   b2 (snd (Update f sample)) = b2 f \<and> a1 (snd (Update f sample)) = a1 f \<and>
   a2 (snd (Update f sample)) = a2 f \<and>
   snd (Update f sample) = f\<lparr>z1 := z1 (snd (Update f sample)), z2 := z2 (snd (Update f sample))\<rparr> \<and>
   Reset f = f\<lparr>z1 := z1 (Reset f), z2 := z2 (Reset f)\<rparr>"
  by (simp add: Update_def Reset_def Let_def)

text \<open>
  C9, as the code has it. The member initialisers give \<open>b0 = 1.0f\<close> and \<open>0.0f\<close> in the
  six other fields. For every finite input \<open>x\<close> the first \<open>Update\<close> of such a filter
  returns a value that compares equal to \<open>x\<close> and leaves \<open>z1 = 0.0f\<close> and a \<open>z2\<close> that
  compares equal to zero; the returned value is \<open>x\<close> itself and \<open>z2\<close> is \<open>0.0f\<close> itself
  unless \<open>x\<close> is the negative zero (bit pattern \<open>0x80000000\<close>), for which \<open>+0.0f\<close> is
  returned and \<open>z2\<close> is \<open>-0.0f\<close>.
\<close>

theorem default_filter_passes_finite_input:
  assumes "isfinite x"
  shows "BiquadFilter_default =
           \<lparr>b0 = 0x3F800000, b1 = 0, b2 = 0, a1 = 0, a2 = 0, z1 = 0, z2 = 0\<rparr> \<and>
         fequal (fst (Update BiquadFilter_default x)) x \<and>
         (x \<noteq> 0x80000000 \<longrightarrow>
            fst (Update BiquadFilter_default x) = x \<and>
            z2 (snd (Update BiquadFilter_default x)) = 0) \<and>
         z1 (snd (Update BiquadFilter_default x)) = 0 \<and>
         fequal (z2 (snd (Update BiquadFilter_default x))) 0"
proof (intro conjI impI)
  note u = default_update [OF assms]
  show "BiquadFilter_default =
           \<lparr>b0 = 0x3F800000, b1 = 0, b2 = 0, a1 = 0, a2 = 0, z1 = 0, z2 = 0\<rparr>"
    by (rule BiquadFilter_default_fields)
  have m0: "mag_of binary32 (unat (0 :: float)) = 0" by (simp add: mag_of_def)
  show "fequal (fst (Update BiquadFilter_default x)) x"
    using assms by (auto simp: u fequal_finite_refl intro: fequal_zeros [OF m0])
  show "z1 (snd (Update BiquadFilter_default x)) = 0"
    unfolding u by (simp add: BiquadFilter_default_fields)
  have "mag_of binary32 (unat (of_nat (pack binary32 s 0) :: float)) = 0" for s
    using sign_mag_pack(2) [of 0 binary32] by (simp add: unat_pack_zero)
  then show "fequal (z2 (snd (Update BiquadFilter_default x))) 0"
    by (auto simp: u intro!: fequal_zeros m0)
  assume nz: "x \<noteq> 0x80000000"
  show "fst (Update BiquadFilter_default x) = x"
    using nz by (auto simp: u neg_zero_iff)
  have eq: "(sign_of binary32 (unat x) \<and> mag_of binary32 (unat x) = 0) = False"
    using nz by (auto simp: neg_zero_iff sign_of_0)
  show "z2 (snd (Update BiquadFilter_default x)) = 0"
    unfolding u eq by (simp add: pack_False_0)
qed

text \<open>The theorem at \<open>x = 0.5f\<close>.\<close>

theorem default_filter_passes_finite_input_witness:
  "isfinite 0x3F000000 \<and> (0x3F000000 :: float) \<noteq> 0x80000000 \<and>
   fst (Update BiquadFilter_default 0x3F000000) = 0x3F000000 \<and>
   z1 (snd (Update BiquadFilter_default 0x3F000000)) = 0 \<and>
   z2 (snd (Update BiquadFilter_default 0x3F000000)) = 0"
proof -
  have f: "isfinite 0x3F000000"
    by (simp add: isfinite_def is_fin_def mag_of_def inf_mag_def binary32_def)
  have n: "(0x3F000000 :: float) \<noteq> 0x80000000" by simp
  from default_filter_passes_finite_input [OF f] f n show ?thesis by simp
qed

text \<open>
  C9 as stated, for any input, fails at \<open>x = +infinity\<close> (bit pattern \<open>0x7F800000\<close>):
  \<open>x * b1\<close> is infinity times zero, and \<open>z1\<close> is left a NaN.
\<close>

theorem default_filter_infinite_input_counterexample:
  "isnan (z1 (snd (Update BiquadFilter_default 0x7F800000))) \<and>
   z1 (snd (Update BiquadFilter_default 0x7F800000)) \<noteq> 0"
proof -
  have "Update BiquadFilter_default 0x7F800000 =
        (0x7F800000, BiquadFilter_default\<lparr>z1 := 0x7FC00000, z2 := 0x7FC00000\<rparr>)"
    unfolding BiquadFilter_default_fields
    by (simp only: Update_eval Update_with_def eval_float eval_arith cong: if_weak_cong)
  moreover have "isnan 0x7FC00000"
    by (simp add: isnan_def is_nan_def mag_of_def inf_mag_def binary32_def)
  ultimately show ?thesis by simp
qed

section \<open>The designer\<close>

text \<open>
  C2. \<open>MakeLowPass\<close> computes \<open>omega\<close> as \<open>2 * pi\<close> times the ratio of \<open>cutoffHz\<close> to
  \<open>sampleRateHz\<close>, \<open>alpha = sin(omega) / (2 * q)\<close>, the raw coefficients
  \<open>(1 - cos(omega)) / 2\<close>, \<open>1 - cos(omega)\<close>, \<open>(1 - cos(omega)) / 2\<close>, \<open>1 + alpha\<close>,
  \<open>-2 * cos(omega)\<close>, \<open>1 - alpha\<close>, and returns the filter that holds the five quotients
  by \<open>1 + alpha\<close> and zero delay registers. The source multiplies by \<open>0.5f\<close> where the
  claim divides by 2: the two are the same value for every operand
  (\<open>fmul_half_eq_fdiv_two\<close>). Each operation is the single-precision one, in the
  order of the source.
\<close>

theorem MakeLowPass_formulas:
  "(let omega = fmul (fmul (flit 2 1) (static_cast_float M_PI)) (fdiv cutoffHz sampleRateHz);
        alpha = fdiv (sinf omega) (fmul (flit 2 1) q);
        b0_raw = fdiv (fsub (flit 1 1) (cosf omega)) (flit 2 1);
        b1_raw = fsub (flit 1 1) (cosf omega);
        b2_raw = fdiv (fsub (flit 1 1) (cosf omega)) (flit 2 1);
        a0_raw = fadd (flit 1 1) alpha;
        a1_raw = fmul (fneg (flit 2 1)) (cosf omega);
        a2_raw = fsub (flit 1 1) alpha
    in MakeLowPass sinf cosf cutoffHz sampleRateHz q =
         \<lparr>b0 = fdiv b0_raw a0_raw, b1 = fdiv b1_raw a0_raw, b2 = fdiv b2_raw a0_raw,
          a1 = fdiv a1_raw a0_raw, a2 = fdiv a2_raw a0_raw, z1 = 0, z2 = 0\<rparr>)"
  unfolding MakeLowPass_def Let_def fmul_half_eq_fdiv_two BiquadFilter_default_fields
  by simp

text \<open>
  C10. Whatever the inputs and whatever \<open>sinf\<close> and \<open>cosf\<close> return, the filter that
  \<open>MakeLowPass\<close> returns has the same bit pattern in \<open>b0\<close> and in \<open>b2\<close>.
\<close>

theorem MakeLowPass_b0_eq_b2:
  "b0 (MakeLowPass sinf cosf cutoffHz sampleRateHz q) =
   b2 (MakeLowPass sinf cosf cutoffHz sampleRateHz q)"
  by (simp add: MakeLowPass_def Let_def)

text \<open>
  C4, as the code has it. \<open>MakeLowPass\<close> works in single precision from the start: the
  \<open>double\<close> constant \<open>M_PI\<close> is narrowed to \<open>float\<close> (\<open>0x40490FDB\<close>, which is not \<open>M_PI\<close>
  any more) before it is used, so
  that \<open>2.0f * pi\<close> is the \<open>float\<close> \<open>0x40C90FDB\<close>, the argument of \<open>sinf\<close> and \<open>cosf\<close> is
  a \<open>float\<close> product of \<open>float\<close>s, and the rest of the chain is \<open>LowPass_from\<close>, whose
  every operation rounds to single precision.
\<close>

theorem MakeLowPass_single_precision:
  "static_cast_float M_PI = 0x40490FDB \<and>
   to_double (static_cast_float M_PI) \<noteq> M_PI \<and>
   fmul (flit 2 1) (static_cast_float M_PI) = 0x40C90FDB \<and>
   MakeLowPass sinf cosf cutoffHz sampleRateHz q =
     LowPass_from (sinf (fmul 0x40C90FDB (fdiv cutoffHz sampleRateHz)))
       (cosf (fmul 0x40C90FDB (fdiv cutoffHz sampleRateHz))) q"
proof -
  have two_pi: "fmul (flit 2 1) (static_cast_float M_PI) = 0x40C90FDB"
    unfolding M_PI_float flit_two by (simp only: eval_float eval_arith cong: if_weak_cong)
  have narrowed: "to_double (static_cast_float M_PI) \<noteq> M_PI"
    unfolding narrowed_pi unfolding M_PI_bits by simp
  show ?thesis
    unfolding MakeLowPass_from two_pi using M_PI_float narrowed by simp
qed

text \<open>
  C4 as stated fails on the filter of the tests. In \<open>double\<close>, \<open>omega\<close> is
  \<open>0x3FD8209F5B22BAA6\<close> (\<open>omega_double\<close>); with the \<open>double\<close>s nearest to its sine and
  cosine, the derivation in \<open>double\<close>, narrowed when stored, gives \<open>a2 = 0x3F163D1D\<close>
  (\<open>design_double\<close>). The source, with the \<open>float\<close>s nearest to the sine and the cosine of
  its \<open>omega\<close>, gives \<open>a2 = 0x3F163D1E\<close>. By \<open>single_double_differ\<close> the two disagree
  for every choice of the four library functions that is accurate to within one unit in
  the last place.
\<close>

theorem single_vs_double_counterexample:
  "a2 (MakeLowPass sinf_nearest cosf_nearest (flit 12 1) (flit 200 1) (flit 707 1000)) \<noteq>
   a2 (MakeLowPass_double sin_nearest cos_nearest
         (flit 12 1) (flit 200 1) (flit 707 1000))"
proof -
  have "MakeLowPass sinf_nearest cosf_nearest (flit 12 1) (flit 200 1) (flit 707 1000) =
        LowPass_from 0x3EBC7AD2 0x3F6E05D5 0x3F34FDF4"
    unfolding MakeLowPass_from test_literals sinf_nearest_def cosf_nearest_def ..
  then show ?thesis
    unfolding nearest_funs design_double design_candidates by simp
qed

text \<open>
  C3, as the code has it. Let \<open>omega\<close> be what \<open>MakeLowPass\<close> computes first. If \<open>sinf\<close>
  returns at \<open>omega\<close> a finite value between \<open>0\<close> and \<open>1\<close>, if \<open>cosf\<close> returns there a
  finite value between \<open>-1\<close> and \<open>1\<close>, and if \<open>q\<close> is finite and not below \<open>2 ^ -126\<close>,
  the smallest positive normal number (\<open>FLT_MIN\<close>), then all five coefficients of the
  filter that \<open>MakeLowPass\<close> returns are finite. No other condition on \<open>cutoffHz\<close> and
  \<open>sampleRateHz\<close> is needed.
\<close>

theorem MakeLowPass_coefficients_finite:
  assumes "isfinite (sinf (omega_of cutoffHz sampleRateHz))"
    and "\<not> fless (sinf (omega_of cutoffHz sampleRateHz)) (flit 0 1)"
    and "\<not> fless (flit 1 1) (sinf (omega_of cutoffHz sampleRateHz))"
    and "isfinite (cosf (omega_of cutoffHz sampleRateHz))"
    and "\<not> fless (cosf (omega_of cutoffHz sampleRateHz)) (fneg (flit 1 1))"
    and "\<not> fless (flit 1 1) (cosf (omega_of cutoffHz sampleRateHz))"
    and "isfinite q" and "\<not> fless q (flit 1 (2 ^ 126))"
  shows "isfinite (b0 (MakeLowPass sinf cosf cutoffHz sampleRateHz q)) \<and>
         isfinite (b1 (MakeLowPass sinf cosf cutoffHz sampleRateHz q)) \<and>
         isfinite (b2 (MakeLowPass sinf cosf cutoffHz sampleRateHz q)) \<and>
         isfinite (a1 (MakeLowPass sinf cosf cutoffHz sampleRateHz q)) \<and>
         isfinite (a2 (MakeLowPass sinf cosf cutoffHz sampleRateHz q))"
  using LowPass_from_finite [OF assms [unfolded flit_zero flit_one smallest_normal]]
  unfolding MakeLowPass_from omega_of_def by simp

text \<open>
  The theorem at \<open>MakeLowPass(12.0f, 200.0f, 0.707f)\<close>, with the nearest values for \<open>sinf\<close>
  and \<open>cosf\<close>: the case of \<open>TestCoefficientsFinite\<close>.
\<close>

theorem MakeLowPass_coefficients_finite_witness:
  "isfinite (sinf_nearest (omega_of (flit 12 1) (flit 200 1))) \<and>
   \<not> fless (sinf_nearest (omega_of (flit 12 1) (flit 200 1))) (flit 0 1) \<and>
   \<not> fless (flit 1 1) (sinf_nearest (omega_of (flit 12 1) (flit 200 1))) \<and>
   isfinite (cosf_nearest (omega_of (flit 12 1) (flit 200 1))) \<and>
   \<not> fless (cosf_nearest (omega_of (flit 12 1) (flit 200 1))) (fneg (flit 1 1)) \<and>
   \<not> fless (flit 1 1) (cosf_nearest (omega_of (flit 12 1) (flit 200 1))) \<and>
   isfinite (flit 707 1000) \<and> \<not> fless (flit 707 1000) (flit 1 (2 ^ 126)) \<and>
   isfinite (b0 (MakeLowPass sinf_nearest cosf_nearest (flit 12 1) (flit 200 1) (flit 707 1000))) \<and>
   isfinite (b1 (MakeLowPass sinf_nearest cosf_nearest (flit 12 1) (flit 200 1) (flit 707 1000))) \<and>
   isfinite (b2 (MakeLowPass sinf_nearest cosf_nearest (flit 12 1) (flit 200 1) (flit 707 1000))) \<and>
   isfinite (a1 (MakeLowPass sinf_nearest cosf_nearest (flit 12 1) (flit 200 1) (flit 707 1000))) \<and>
   isfinite (a2 (MakeLowPass sinf_nearest cosf_nearest (flit 12 1) (flit 200 1) (flit 707 1000)))"
proof -
  have h: "isfinite (sinf_nearest (omega_of (flit 12 1) (flit 200 1)))"
    "\<not> fless (sinf_nearest (omega_of (flit 12 1) (flit 200 1))) (flit 0 1)"
    "\<not> fless (flit 1 1) (sinf_nearest (omega_of (flit 12 1) (flit 200 1)))"
    "isfinite (cosf_nearest (omega_of (flit 12 1) (flit 200 1)))"
    "\<not> fless (cosf_nearest (omega_of (flit 12 1) (flit 200 1))) (fneg (flit 1 1))"
    "\<not> fless (flit 1 1) (cosf_nearest (omega_of (flit 12 1) (flit 200 1)))"
    "isfinite (flit 707 1000)" "\<not> fless (flit 707 1000) (flit 1 (2 ^ 126))"
    unfolding sinf_nearest_def cosf_nearest_def flit_zero flit_one smallest_normal test_literals
      minus_one
    by (simp_all add: cmp_defs)
  from h MakeLowPass_coefficients_finite [where sinf = sinf_nearest and cosf = cosf_nearest
      and cutoffHz = "flit 12 1" and sampleRateHz = "flit 200 1" and q = "flit 707 1000", OF h]
  show ?thesis by simp
qed

text \<open>
  C3 as stated, for every finite input with the cutoff strictly between 0 and half the
  sample rate and positive \<open>q\<close>, fails at \<open>q = 1e-40f\<close> (a subnormal, bit pattern
  \<open>0x000116C2\<close>) with the cutoff and sample rate of the tests: \<open>alpha = sinOmega / (2 * q)\<close>
  overflows to infinity, \<open>a0\<close> is infinite, \<open>a2\<close> is infinity divided by infinity, a NaN.
  \<open>MakeLowPass\<close> validates nothing.
\<close>

theorem coefficients_finite_counterexample:
  "isfinite (flit 12 1) \<and> isfinite (flit 200 1) \<and> isfinite (flit 1 (10 ^ 40)) \<and>
   fless 0 (flit 12 1) \<and> fless (flit 12 1) (fdiv (flit 200 1) (flit 2 1)) \<and>
   fless 0 (flit 200 1) \<and> fless 0 (flit 1 (10 ^ 40)) \<and>
   \<not> isfinite (a2 (MakeLowPass sinf_nearest cosf_nearest (flit 12 1) (flit 200 1) (flit 1 (10 ^ 40))))"
proof -
  have "MakeLowPass sinf_nearest cosf_nearest (flit 12 1) (flit 200 1) (flit 1 (10 ^ 40)) =
        LowPass_from 0x3EBC7AD2 0x3F6E05D5 0x116C2"
    unfolding MakeLowPass_from tiny_q sinf_nearest_def cosf_nearest_def ..
  then show ?thesis
    unfolding test_literals tiny_q flit_two design_tiny_q
    using tiny_q_in_range by simp
qed


section \<open>The step response and the decay\<close>

text \<open>
  C6. For the filter built by \<open>MakeLowPass(12.0f, 200.0f, 0.707f)\<close>, the value returned
  by the 200th of 200 updates with input \<open>1.0f\<close> is finite and lies strictly between 0.9
  and 1.1, as a real number and by the two comparisons of \<open>TestStepResponse\<close> with
  \<open>0.9f\<close> and \<open>1.1f\<close>. This holds whenever \<open>sinf\<close> and \<open>cosf\<close> are accurate at \<open>omega\<close> to
  within one unit in the last place.
\<close>

theorem step_response_within_bounds:
  assumes "\<bar>float_value (sinf (omega_of (flit 12 1) (flit 200 1))) -
            sin (float_value (omega_of (flit 12 1) (flit 200 1)))\<bar> < 1 / 2 ^ 25"
    and "\<bar>float_value (cosf (omega_of (flit 12 1) (flit 200 1))) -
            cos (float_value (omega_of (flit 12 1) (flit 200 1)))\<bar> < 1 / 2 ^ 24"
  shows "isfinite (fst (TestStepResponse_loop sinf cosf)) \<and>
         9 / 10 < float_value (fst (TestStepResponse_loop sinf cosf)) \<and>
         float_value (fst (TestStepResponse_loop sinf cosf)) < 11 / 10 \<and>
         fless (flit 9 10) (fst (TestStepResponse_loop sinf cosf)) \<and>
         fless (fst (TestStepResponse_loop sinf cosf)) (flit 11 10)"
proof -
  have s: "sinf 0x3EC104FB \<in> {0x3EBC7AD1, 0x3EBC7AD2, 0x3EBC7AD3}"
    using assms(1) unfolding omega_of_test by (rule sinf_within_ulp)
  have c: "cosf 0x3EC104FB \<in> {0x3F6E05D4, 0x3F6E05D5, 0x3F6E05D6}"
    using assms(2) unfolding omega_of_test by (rule cosf_within_ulp)
  from s c show ?thesis
    unfolding TestStepResponse_loop_from test_literals
    by (elim insertE emptyE)
      (simp_all only: design_candidates step_runs fst_conv step_outputs simp_thms)
qed

text \<open>The theorem with the nearest values for \<open>sinf\<close> and \<open>cosf\<close>.\<close>

theorem step_response_within_bounds_witness:
  "\<bar>float_value (sinf_nearest (omega_of (flit 12 1) (flit 200 1))) -
     sin (float_value (omega_of (flit 12 1) (flit 200 1)))\<bar> < 1 / 2 ^ 25 \<and>
   \<bar>float_value (cosf_nearest (omega_of (flit 12 1) (flit 200 1))) -
     cos (float_value (omega_of (flit 12 1) (flit 200 1)))\<bar> < 1 / 2 ^ 24 \<and>
   9 / 10 < float_value (fst (TestStepResponse_loop sinf_nearest cosf_nearest)) \<and>
   float_value (fst (TestStepResponse_loop sinf_nearest cosf_nearest)) < 11 / 10"
  using nearest_within_ulp
    step_response_within_bounds [of sinf_nearest cosf_nearest, OF nearest_within_ulp]
  by blast

text \<open>
  C5, as the code has it. The filter as built, its delay registers zero, returns
  \<open>0.0f\<close> at the 50th of 50 updates with \<open>0.0f\<close>: this is what \<open>TestZeroInput\<close> checks
  against \<open>1e-6f\<close>. Driven first by the 200 updates with \<open>1.0f\<close>, the filter returns at
  the 50th update with \<open>0.0f\<close> a value whose magnitude is below \<open>1e-5\<close>, and above
  \<open>1e-6\<close>. This holds whenever \<open>sinf\<close> and \<open>cosf\<close> are accurate at \<open>omega\<close> to within one
  unit in the last place.
\<close>

theorem zero_input_decay:
  assumes "\<bar>float_value (sinf (omega_of (flit 12 1) (flit 200 1))) -
            sin (float_value (omega_of (flit 12 1) (flit 200 1)))\<bar> < 1 / 2 ^ 25"
    and "\<bar>float_value (cosf (omega_of (flit 12 1) (flit 200 1))) -
            cos (float_value (omega_of (flit 12 1) (flit 200 1)))\<bar> < 1 / 2 ^ 24"
  shows "fst (TestZeroInput_loop sinf cosf) = 0 \<and>
         fless (fabs (fst (TestZeroInput_loop sinf cosf))) (flit 1 1000000) \<and>
         1 / 1000000 < \<bar>float_value (fst (zero_input_after_step sinf cosf))\<bar> \<and>
         \<bar>float_value (fst (zero_input_after_step sinf cosf))\<bar> < 1 / 100000"
proof -
  have s: "sinf 0x3EC104FB \<in> {0x3EBC7AD1, 0x3EBC7AD2, 0x3EBC7AD3}"
    using assms(1) unfolding omega_of_test by (rule sinf_within_ulp)
  have c: "cosf 0x3EC104FB \<in> {0x3F6E05D4, 0x3F6E05D5, 0x3F6E05D6}"
    using assms(2) unfolding omega_of_test by (rule cosf_within_ulp)
  from s c show ?thesis
    unfolding TestZeroInput_loop_from zero_input_after_step_from test_literals
    by (elim insertE emptyE)
      (simp_all only: design_candidates step_runs decay_runs zero_runs fst_conv decay_outputs
        zero_output simp_thms)
qed

text \<open>The theorem with the nearest values for \<open>sinf\<close> and \<open>cosf\<close>.\<close>

theorem zero_input_decay_witness:
  "\<bar>float_value (sinf_nearest (omega_of (flit 12 1) (flit 200 1))) -
     sin (float_value (omega_of (flit 12 1) (flit 200 1)))\<bar> < 1 / 2 ^ 25 \<and>
   \<bar>float_value (cosf_nearest (omega_of (flit 12 1) (flit 200 1))) -
     cos (float_value (omega_of (flit 12 1) (flit 200 1)))\<bar> < 1 / 2 ^ 24 \<and>
   fst (TestZeroInput_loop sinf_nearest cosf_nearest) = 0 \<and>
   \<bar>float_value (fst (zero_input_after_step sinf_nearest cosf_nearest))\<bar> < 1 / 100000"
  using nearest_within_ulp
    zero_input_decay [of sinf_nearest cosf_nearest, OF nearest_within_ulp]
  by blast

text \<open>
  C5 as stated fails: after the 200 updates with \<open>1.0f\<close>, the 50th output under zero
  input is \<open>0x362F8798\<close>, about \<open>2.6e-6\<close>, not below \<open>1e-6\<close>. The poles of the filter
  have modulus about \<open>0.766\<close>, and \<open>0.766 ^ 50\<close> is about \<open>1.6e-6\<close>.
\<close>

theorem zero_input_decay_counterexample:
  "\<not> \<bar>float_value (fst (zero_input_after_step sinf_nearest cosf_nearest))\<bar> < 1 / 1000000 \<and>
   \<not> fless (fabs (fst (zero_input_after_step sinf_nearest cosf_nearest))) (flit 1 1000000)"
proof -
  have "fst (zero_input_after_step sinf_nearest cosf_nearest) = 0x362F8798"
    unfolding zero_input_after_step_from sinf_nearest_def cosf_nearest_def
    by (simp only: design_candidates step_runs decay_runs fst_conv)
  then show ?thesis
    unfolding test_literals using decay_outputs by simp
qed


end
